theory Spec2Isabelle
  imports Complex_Main
begin

section \<open>Python strings and the interpreter's tables\<close>

text \<open>
  A Python \<open>str\<close> is a sequence of Unicode code points; a code point is a natural number.
  \<open>ustr\<close> writes an ASCII literal as such a sequence.
\<close>

type_synonym uchar = nat
type_synonym ustring = "nat list"

definition ustr :: "string \<Rightarrow> ustring" where
  "ustr s = map of_char s"

text \<open>
  The scripts rely on tables of the interpreter that are not part of the repository:
  \<open>str.lower\<close>, the whitespace class used by \<open>str.strip\<close> and by \<open>\s\<close>, the decimal-digit
  class used by \<open>\d\<close>, and the iteration order of a \<open>set\<close> of strings (which depends on
  string hashing). They are parameters of the model.
\<close>

record pyenv =
  str_lower :: "ustring \<Rightarrow> ustring"
  isspace :: "uchar \<Rightarrow> bool"
  isdecimal :: "uchar \<Rightarrow> bool"
  set_iter :: "ustring list \<Rightarrow> ustring list"

text \<open>
  A concrete instance, exact on strings over ASCII and the Polish alphabet: these
  are the tables against which concrete inputs are evaluated.
\<close>

definition lower_cp :: "uchar \<Rightarrow> uchar" where
  "lower_cp c =
     (if 65 \<le> c \<and> c \<le> 90 then c + 32
      else if c = 211 then 243
      else if c = 260 \<or> c = 262 \<or> c = 280 \<or> c = 321 \<or> c = 323 \<or> c = 346
              \<or> c = 377 \<or> c = 379 then c + 1
      else c)"

definition space_cp :: "uchar \<Rightarrow> bool" where
  "space_cp c = ((9 \<le> c \<and> c \<le> 13) \<or> (28 \<le> c \<and> c \<le> 32) \<or> c = 133 \<or> c = 160)"

definition digit_cp :: "uchar \<Rightarrow> bool" where
  "digit_cp c = (48 \<le> c \<and> c \<le> 57)"

definition py :: pyenv where
  "py = \<lparr> str_lower = map lower_cp, isspace = space_cp, isdecimal = digit_cp,
          set_iter = remdups \<rparr>"

subsection \<open>String operations\<close>

definition lstrip :: "pyenv \<Rightarrow> ustring \<Rightarrow> ustring" where
  "lstrip U s = dropWhile (isspace U) s"

definition rstrip :: "pyenv \<Rightarrow> ustring \<Rightarrow> ustring" where
  "rstrip U s = rev (dropWhile (isspace U) (rev s))"

definition strip :: "pyenv \<Rightarrow> ustring \<Rightarrow> ustring" where
  "strip U s = rstrip U (lstrip U s)"

fun startswith :: "ustring \<Rightarrow> ustring \<Rightarrow> bool" where
  "startswith s [] = True"
| "startswith [] (p # ps) = False"
| "startswith (c # cs) (p # ps) = (c = p \<and> startswith cs ps)"

text \<open>\<open>str_in kw s\<close> is Python's \<open>kw in s\<close> on strings.\<close>

fun str_in :: "ustring \<Rightarrow> ustring \<Rightarrow> bool" where
  "str_in kw [] = (kw = [])"
| "str_in kw (c # cs) = (startswith (c # cs) kw \<or> str_in kw cs)"

text \<open>\<open>split sep s\<close> is \<open>s.split(sep)\<close> for a one-character separator.\<close>

fun split :: "uchar \<Rightarrow> ustring \<Rightarrow> ustring list" where
  "split sep [] = [[]]"
| "split sep (c # cs) =
     (if c = sep then [] # split sep cs
      else (case split sep cs of [] \<Rightarrow> [[c]] | w # ws \<Rightarrow> (c # w) # ws))"

section \<open>status_mapper.py\<close>

text \<open>
  The status object of an issue: \<open>{'name': ..., 'statusCategory': {'key': ...}}\<close>, each key
  optional. A record with every field absent is the empty dictionary.
\<close>

record status_category =
  sc_key :: "ustring option"

record status_field =
  sf_name :: "ustring option"
  sf_statusCategory :: "status_category option"

definition STATUS_CATEGORY_MAP :: "(ustring \<times> ustring) list" where
  "STATUS_CATEGORY_MAP =
     [(ustr ''done'', ustr ''Done''),
      (ustr ''indeterminate'', ustr ''In Progress''),
      (ustr ''new'', ustr ''To Do'')]"

definition STATUS_NAME_FALLBACK :: "(ustring \<times> ustring) list" where
  "STATUS_NAME_FALLBACK =
     [(ustr ''done'', ustr ''Done''),
      (ustr ''gotowe'', ustr ''Done''),
      (ustr ''closed'', ustr ''Done''),
      (ustr ''zamkni'' @ [281] @ ustr ''te'', ustr ''Done''),
      (ustr ''zamkniete'', ustr ''Done''),
      (ustr ''resolved'', ustr ''Done''),
      (ustr ''rozwi'' @ [261] @ ustr ''zane'', ustr ''Done''),
      (ustr ''rozwiazane'', ustr ''Done''),
      (ustr ''complete'', ustr ''Done''),
      (ustr ''completed'', ustr ''Done''),
      (ustr ''zako'' @ [324] @ ustr ''czone'', ustr ''Done''),
      (ustr ''zakonczone'', ustr ''Done''),
      (ustr ''in progress'', ustr ''In Progress''),
      (ustr ''w trakcie'', ustr ''In Progress''),
      (ustr ''w toku'', ustr ''In Progress''),
      (ustr ''in development'', ustr ''In Progress''),
      (ustr ''in review'', ustr ''In Progress''),
      (ustr ''review'', ustr ''In Progress''),
      (ustr ''testing'', ustr ''In Progress''),
      (ustr ''testowanie'', ustr ''In Progress''),
      (ustr ''in testing'', ustr ''In Progress''),
      (ustr ''code review'', ustr ''In Progress''),
      (ustr ''przegl'' @ [261] @ ustr ''d kodu'', ustr ''In Progress''),
      (ustr ''przeglad kodu'', ustr ''In Progress''),
      (ustr ''to do'', ustr ''To Do''),
      (ustr ''do zrobienia'', ustr ''To Do''),
      (ustr ''backlog'', ustr ''To Do''),
      (ustr ''open'', ustr ''To Do''),
      (ustr ''new'', ustr ''To Do''),
      (ustr ''nowe'', ustr ''To Do''),
      (ustr ''otwarte'', ustr ''To Do''),
      (ustr ''selected for development'', ustr ''To Do''),
      (ustr ''ready'', ustr ''To Do''),
      (ustr ''gotowe do realizacji'', ustr ''To Do'')]"

text \<open>
  \<open>category_truthy\<close> and \<open>status_truthy\<close> are \<open>bool(d)\<close> of the two dictionaries:
  whether a key is present. \<open>str_or v\<close> is \<open>d.get(k, '')\<close>.
\<close>

definition category_truthy :: "status_category \<Rightarrow> bool" where
  "category_truthy sc = (sc_key sc \<noteq> None)"

definition status_truthy :: "status_field \<Rightarrow> bool" where
  "status_truthy sf = (sf_name sf \<noteq> None \<or> sf_statusCategory sf \<noteq> None)"

definition str_or :: "ustring option \<Rightarrow> ustring" where
  "str_or v = (case v of None \<Rightarrow> [] | Some s \<Rightarrow> s)"

definition category_result :: "pyenv \<Rightarrow> status_field \<Rightarrow> ustring option" where
  "category_result U sf =
     (case sf_statusCategory sf of
        None \<Rightarrow> None
      | Some sc \<Rightarrow>
          if category_truthy sc
          then map_of STATUS_CATEGORY_MAP (str_lower U (str_or (sc_key sc)))
          else None)"

definition name_result :: "pyenv \<Rightarrow> status_field \<Rightarrow> ustring option" where
  "name_result U sf =
     (let status_name = str_or (sf_name sf) in
      if status_name \<noteq> []
      then map_of STATUS_NAME_FALLBACK (strip U (str_lower U status_name))
      else None)"

definition map_jira_status :: "pyenv \<Rightarrow> status_field option \<Rightarrow> ustring" where
  "map_jira_status U status_field =
     (case status_field of
        None \<Rightarrow> ustr ''To Do''
      | Some sf \<Rightarrow>
          if \<not> status_truthy sf then ustr ''To Do''
          else (case category_result U sf of
                  Some r \<Rightarrow> r
                | None \<Rightarrow>
                    (case name_result U sf of
                       Some r \<Rightarrow> r
                     | None \<Rightarrow> ustr ''To Do'')))"

section \<open>jira_parser.py\<close>

subsection \<open>The regular expressions\<close>

text \<open>
  \<open>bracket_at s\<close> matches \<open>\[([^\]]+)\]\<close> at the start of \<open>s\<close> and returns group 1 and
  the text after the match: an opening bracket, at least one character other than the
  closing bracket, and the closing bracket.
\<close>

definition bracket_at :: "ustring \<Rightarrow> (ustring \<times> ustring) option" where
  "bracket_at s =
     (case s of
        [] \<Rightarrow> None
      | c # cs \<Rightarrow>
          if c = 91
          then (let body = takeWhile (\<lambda>x. x \<noteq> 93) cs; r = dropWhile (\<lambda>x. x \<noteq> 93) cs
                in if body \<noteq> [] \<and> r \<noteq> [] then Some (body, tl r) else None)
          else None)"

text \<open>\<open>re.search(r'\[([^\]]+)\]', text)\<close>: group 1 of the leftmost match.\<close>

fun re_search_client :: "ustring \<Rightarrow> ustring option" where
  "re_search_client [] = None"
| "re_search_client (c # cs) =
     (case bracket_at (c # cs) of
        Some (g, r) \<Rightarrow> Some g
      | None \<Rightarrow> re_search_client cs)"

text \<open>
  \<open>client_at U s\<close> matches \<open>\s*\[[^\]]+\]\s*\<close> at the start of \<open>s\<close> and returns the text
  after the match. The leading \<open>\s*\<close> is greedy: the matcher first tries to take one more
  whitespace character and only then to open the bracket at this position.
\<close>

definition bracket_then_space :: "pyenv \<Rightarrow> ustring \<Rightarrow> ustring option" where
  "bracket_then_space U s =
     (case bracket_at s of
        Some (g, r) \<Rightarrow> Some (dropWhile (isspace U) r)
      | None \<Rightarrow> None)"

fun client_at :: "pyenv \<Rightarrow> ustring \<Rightarrow> ustring option" where
  "client_at U [] = None"
| "client_at U (c # cs) =
     (if isspace U c
      then (case client_at U cs of
              Some r \<Rightarrow> Some r
            | None \<Rightarrow> bracket_then_space U (c # cs))
      else bracket_then_space U (c # cs))"

text \<open>
  \<open>re.sub(r'\s*\[[^\]]+\]\s*', ' ', text)\<close>: every non-overlapping match, from the left, is
  replaced by one space. The fuel bounds the number of scanning steps; the length of the
  text is enough.
\<close>

fun re_sub_client_fuel :: "nat \<Rightarrow> pyenv \<Rightarrow> ustring \<Rightarrow> ustring" where
  "re_sub_client_fuel 0 U s = s"
| "re_sub_client_fuel (Suc n) U [] = []"
| "re_sub_client_fuel (Suc n) U (c # cs) =
     (case client_at U (c # cs) of
        Some r \<Rightarrow> 32 # re_sub_client_fuel n U r
      | None \<Rightarrow> c # re_sub_client_fuel n U cs)"

definition re_sub_client :: "pyenv \<Rightarrow> ustring \<Rightarrow> ustring" where
  "re_sub_client U s = re_sub_client_fuel (length s) U s"

definition marker_class :: "pyenv \<Rightarrow> uchar \<Rightarrow> bool" where
  "marker_class U c = (c = 46 \<or> c = 41 \<or> isspace U c)"

text \<open>\<open>re.match(r'^\d+[.)\s]', line)\<close>: some non-empty run of digits followed by a
  character of the class.\<close>

fun numbered_at :: "pyenv \<Rightarrow> ustring \<Rightarrow> bool" where
  "numbered_at U [] = False"
| "numbered_at U (c # cs) =
     (isdecimal U c \<and>
      (numbered_at U cs \<or> (case cs of [] \<Rightarrow> False | d # ds \<Rightarrow> marker_class U d)))"

definition is_numbered_item :: "pyenv \<Rightarrow> ustring \<Rightarrow> bool" where
  "is_numbered_item U line = numbered_at U line"

definition is_dash_item :: "pyenv \<Rightarrow> ustring \<Rightarrow> bool" where
  "is_dash_item U line =
     (case line of
        c # d # ds \<Rightarrow> (c = 45 \<or> c = 42) \<and> isspace U d
      | _ \<Rightarrow> False)"

definition is_section_header :: "ustring \<Rightarrow> bool" where
  "is_section_header line = (startswith line (ustr ''##'') \<or> startswith line (ustr ''**''))"

text \<open>
  \<open>re.sub(r'^[\d]+[.)\s]+|^[-*]\s+', '', line)\<close>: the pattern is anchored at the start, so
  at most one match is removed. \<open>number_marker\<close> is the first alternative (greedy digits,
  taking one digit less when the rest fails), \<open>dash_marker\<close> the second.
\<close>

fun number_marker :: "pyenv \<Rightarrow> ustring \<Rightarrow> ustring option" where
  "number_marker U [] = None"
| "number_marker U (c # cs) =
     (if isdecimal U c
      then (case number_marker U cs of
              Some r \<Rightarrow> Some r
            | None \<Rightarrow>
                (case cs of
                   [] \<Rightarrow> None
                 | d # ds \<Rightarrow>
                     if marker_class U d then Some (dropWhile (marker_class U) cs) else None))
      else None)"

definition dash_marker :: "pyenv \<Rightarrow> ustring \<Rightarrow> ustring option" where
  "dash_marker U line =
     (case line of
        c # d # ds \<Rightarrow>
          if (c = 45 \<or> c = 42) \<and> isspace U d then Some (dropWhile (isspace U) (d # ds))
          else None
      | _ \<Rightarrow> None)"

definition remove_marker :: "pyenv \<Rightarrow> ustring \<Rightarrow> ustring" where
  "remove_marker U line =
     (case number_marker U line of
        Some r \<Rightarrow> r
      | None \<Rightarrow> (case dash_marker U line of Some r \<Rightarrow> r | None \<Rightarrow> line))"

subsection \<open>parse_client_from_text\<close>

definition parse_client_from_text :: "pyenv \<Rightarrow> ustring \<Rightarrow> ustring option \<times> ustring" where
  "parse_client_from_text U text0 =
     (let text = strip U text0 in
      case re_search_client text of
        Some g \<Rightarrow> (Some (strip U g), strip U (re_sub_client U text))
      | None \<Rightarrow> (None, text))"

subsection \<open>parse_sprint_description\<close>

text \<open>The decimal numeral of an integer, as an f-string prints it.\<close>

fun digits :: "nat \<Rightarrow> ustring" where
  "digits n = (if n < 10 then [48 + n] else digits (n div 10) @ [48 + n mod 10])"

declare digits.simps [simp del]

definition str_int :: "int \<Rightarrow> ustring" where
  "str_int i = (if i < 0 then 45 # digits (nat (- i)) else digits (nat i))"

datatype section_name = Goals | SideGoals

record decl =
  goal_id :: int
  title :: ustring
  client :: "ustring option"
  tag :: ustring

record parse_result =
  goals :: "decl list"
  sideGoals :: "decl list"

record parse_state =
  result :: parse_result
  current_section :: "section_name option"
  goal_counter :: int
  side_goal_counter :: int

definition goal_keywords :: "ustring list" where
  "goal_keywords =
     [ustr ''cele g'' @ [322, 243] @ ustr ''wne'', ustr ''cele sprintu'', ustr ''sprint goals'']"

definition side_goal_keywords :: "ustring list" where
  "side_goal_keywords = [ustr ''cele poboczne'', ustr ''side goals'', ustr ''poboczn'']"

definition first_pass_keywords :: "ustring list" where
  "first_pass_keywords =
     [ustr ''cele g'' @ [322, 243] @ ustr ''wne'', ustr ''cele sprintu'', ustr ''sprint goals'',
      ustr ''cele poboczne'', ustr ''side goals'']"

text \<open>The first pass over the lines: does any line hold one of the five keywords?\<close>

definition has_explicit_headers :: "pyenv \<Rightarrow> ustring list \<Rightarrow> bool" where
  "has_explicit_headers U lines =
     list_ex (\<lambda>line. let lower_line = strip U (str_lower U line)
                     in list_ex (\<lambda>keyword. str_in keyword lower_line) first_pass_keywords)
             lines"

definition add_goal :: "ustring \<Rightarrow> ustring option \<Rightarrow> ustring \<Rightarrow> parse_state \<Rightarrow> parse_state" where
  "add_goal goal_prefix cl ti st =
     (let n = goal_counter st + 1 in
      st\<lparr> goal_counter := n,
          result := (result st)\<lparr> goals := goals (result st) @
            [\<lparr> goal_id = n, title = ti, client = cl, tag = goal_prefix @ str_int n \<rparr>] \<rparr> \<rparr>)"

definition add_side_goal :: "ustring \<Rightarrow> ustring option \<Rightarrow> ustring \<Rightarrow> parse_state \<Rightarrow> parse_state" where
  "add_side_goal side_goal_prefix cl ti st =
     (let n = side_goal_counter st + 1 in
      st\<lparr> side_goal_counter := n,
          result := (result st)\<lparr> sideGoals := sideGoals (result st) @
            [\<lparr> goal_id = n, title = ti, client = cl, tag = side_goal_prefix @ str_int n \<rparr>] \<rparr> \<rparr>)"

text \<open>One iteration of the second loop, on one line.\<close>

definition process_line ::
  "pyenv \<Rightarrow> bool \<Rightarrow> ustring \<Rightarrow> ustring \<Rightarrow> parse_state \<Rightarrow> ustring \<Rightarrow> parse_state" where
  "process_line U has_headers goal_prefix side_goal_prefix st line0 =
     (let line = strip U line0 in
      if line = [] then st
      else
        let lower_line = str_lower U line in
        if list_ex (\<lambda>k. str_in k lower_line) goal_keywords
        then st\<lparr> current_section := Some Goals \<rparr>
        else if list_ex (\<lambda>k. str_in k lower_line) side_goal_keywords
        then st\<lparr> current_section := Some SideGoals \<rparr>
        else if is_section_header line
        then st\<lparr> current_section := None \<rparr>
        else
          let is_numbered = is_numbered_item U line;
              is_dash = is_dash_item U line
          in
          if \<not> is_numbered \<and> \<not> is_dash then st
          else
            let target_section =
                  (if has_headers then current_section st
                   else if is_numbered then Some Goals
                   else if is_dash then Some SideGoals
                   else None)
            in
            case target_section of
              None \<Rightarrow> st
            | Some sec \<Rightarrow>
                let cleaned = remove_marker U line in
                if cleaned = [] then st
                else
                  (case parse_client_from_text U cleaned of
                     (cl, ti) \<Rightarrow>
                       (case sec of
                          Goals \<Rightarrow> add_goal goal_prefix cl ti st
                        | SideGoals \<Rightarrow> add_side_goal side_goal_prefix cl ti st)))"

definition initial_state :: parse_state where
  "initial_state =
     \<lparr> result = \<lparr> goals = [], sideGoals = [] \<rparr>, current_section = None,
       goal_counter = 0, side_goal_counter = 0 \<rparr>"

definition description_lines :: "pyenv \<Rightarrow> ustring \<Rightarrow> ustring list" where
  "description_lines U description = split 10 (strip U description)"

definition parse_sprint_description ::
  "pyenv \<Rightarrow> ustring \<Rightarrow> ustring \<Rightarrow> ustring \<Rightarrow> parse_result" where
  "parse_sprint_description U description goal_prefix side_goal_prefix =
     (if description = [] then \<lparr> goals = [], sideGoals = [] \<rparr>
      else
        let lines = description_lines U description;
            has_headers = has_explicit_headers U lines
        in result (foldl (process_line U has_headers goal_prefix side_goal_prefix)
                         initial_state lines))"

subsection \<open>map_task_to_goal and map_task_to_side_goal\<close>

text \<open>\<open>re.sub(r'[-_\s]', '', s)\<close>: hyphens, underscores and whitespace are deleted.\<close>

definition normalize_label :: "pyenv \<Rightarrow> ustring \<Rightarrow> ustring" where
  "normalize_label U s = filter (\<lambda>c. \<not> (c = 45 \<or> c = 95 \<or> isspace U c)) s"

text \<open>
  The loop over the labels. \<open>tags\<close> lists the elements of the set of lowercased tags;
  membership is tested on the set, and the inner loop visits the set in the
  interpreter's iteration order.
\<close>

fun match_labels :: "pyenv \<Rightarrow> ustring list \<Rightarrow> ustring list \<Rightarrow> ustring option" where
  "match_labels U tags [] = None"
| "match_labels U tags (label # rest) =
     (let label_lower = str_lower U label in
      if label_lower \<in> set tags then Some label_lower
      else
        let normalized = normalize_label U label_lower in
        case find (\<lambda>t. normalized = normalize_label U t) (set_iter U tags) of
          Some t \<Rightarrow> Some t
        | None \<Rightarrow> match_labels U tags rest)"

definition map_task_to_goal :: "pyenv \<Rightarrow> ustring list \<Rightarrow> decl list \<Rightarrow> ustring option" where
  "map_task_to_goal U task_labels gs =
     (let goal_tags = map (\<lambda>g. str_lower U (tag g)) gs
      in match_labels U goal_tags task_labels)"

definition map_task_to_side_goal :: "pyenv \<Rightarrow> ustring list \<Rightarrow> decl list \<Rightarrow> ustring option" where
  "map_task_to_side_goal U task_labels side_goals =
     (let side_goal_tags = map (\<lambda>sg. str_lower U (tag sg)) side_goals
      in match_labels U side_goal_tags task_labels)"

subsection \<open>calculate_goal_progress\<close>

text \<open>
  \<open>round((done / total) * 100)\<close> is computed in binary64 arithmetic: the quotient of the two
  integers is rounded to the nearest double, the product with 100 is rounded to the
  nearest double, and \<open>round\<close> takes the nearest integer of that double, ties to even.
  A positive double is a mantissa and an exponent, worth \<open>mant * 2 ^ expo\<close>.
\<close>

record double =
  mant :: nat
  expo :: int

text \<open>\<open>round_half_even p q\<close>: the integer nearest to \<open>p / q\<close>, ties to even.\<close>

definition round_half_even :: "nat \<Rightarrow> nat \<Rightarrow> nat" where
  "round_half_even p q =
     (let f = p div q; r = p mod q in
      if 2 * r < q then f
      else if q < 2 * r then f + 1
      else if even f then f else f + 1)"

text \<open>
  Normalisation to 53 significant bits: \<open>scale_up\<close> doubles the numerator until the
  quotient reaches \<open>2 ^ 52\<close>, \<open>scale_down\<close> doubles the denominator until the quotient is
  below \<open>2 ^ 53\<close>; the exponent follows.
\<close>

function scale_up :: "nat \<Rightarrow> nat \<Rightarrow> int \<Rightarrow> nat \<times> int" where
  "scale_up p q e = (if p = 0 \<or> 2 ^ 52 * q \<le> p then (p, e) else scale_up (2 * p) q (e - 1))"
  by pat_completeness auto
termination
  by (relation "measure (\<lambda>(p, q, e). 2 ^ 52 * q - p)") auto

function scale_down :: "nat \<Rightarrow> nat \<Rightarrow> int \<Rightarrow> nat \<times> int" where
  "scale_down p q e = (if q = 0 \<or> p < 2 ^ 53 * q then (q, e) else scale_down p (2 * q) (e + 1))"
  by pat_completeness auto
termination
  by (relation "measure (\<lambda>(p, q, e). Suc p - 2 ^ 53 * q)") auto

declare scale_up.simps [simp del] scale_down.simps [simp del]

text \<open>\<open>to_double p q e\<close>: the double nearest to \<open>p / q * 2 ^ e\<close>.\<close>

definition to_double :: "nat \<Rightarrow> nat \<Rightarrow> int \<Rightarrow> double" where
  "to_double p q e =
     (case scale_up p q e of
        (p', e1) \<Rightarrow>
          (case scale_down p' q e1 of
             (q', e2) \<Rightarrow> \<lparr> mant = round_half_even p' q', expo = e2 \<rparr>))"

definition float_div :: "nat \<Rightarrow> nat \<Rightarrow> double" where
  "float_div a b = to_double a b 0"

definition float_mul :: "double \<Rightarrow> nat \<Rightarrow> double" where
  "float_mul x k = to_double (mant x * k) 1 (expo x)"

definition float_round :: "double \<Rightarrow> nat" where
  "float_round x =
     (if 0 \<le> expo x then mant x * 2 ^ nat (expo x)
      else round_half_even (mant x) (2 ^ nat (- expo x)))"

definition percent_of :: "nat \<Rightarrow> nat \<Rightarrow> int" where
  "percent_of d t = int (float_round (float_mul (float_div d t) 100))"

record task =
  key :: ustring
  summary :: ustring
  status :: ustring
  labels :: "ustring list"
  epic :: "ustring option"
  assignee :: "ustring option"

record progress =
  done_n :: int
  inProgress :: int
  todo :: int
  total :: int
  percent :: int

definition calculate_goal_progress :: "task list \<Rightarrow> progress" where
  "calculate_goal_progress goal_tasks =
     (if goal_tasks = []
      then \<lparr> done_n = 0, inProgress = 0, todo = 0, total = 0, percent = 0 \<rparr>
      else
        let tot = length goal_tasks;
            dn = length (filter (\<lambda>t. status t = ustr ''Done'') goal_tasks);
            in_progress = length (filter (\<lambda>t. status t = ustr ''In Progress'') goal_tasks);
            td = int tot - int dn - int in_progress
        in \<lparr> done_n = int dn, inProgress = int in_progress, todo = td, total = int tot,
             percent = percent_of dn tot \<rparr>)"

section \<open>sync_jira.py and sync_jira_to_repo.py\<close>

subsection \<open>The data\<close>

text \<open>
  The dictionaries the scripts read are records; a key read with \<open>d.get(k)\<close> is an
  optional field, a key read with \<open>d[k]\<close> (the id of a sprint, the key of an issue, the id
  of a stored goal) is a field. The comments of a stored goal are opaque values of
  type \<open>'c\<close>.
\<close>

record raw_sprint =
  rs_id :: int
  rs_name :: "ustring option"
  rs_goal :: "ustring option"
  rs_state :: "ustring option"
  rs_startDate :: "ustring option"
  rs_endDate :: "ustring option"

record raw_assignee =
  displayName :: "ustring option"
  login_name :: "ustring option"

record raw_fields =
  f_summary :: "ustring option"
  f_status :: "status_field option"
  f_labels :: "ustring list option"
  f_assignee :: "raw_assignee option"
  customfield_10014 :: "ustring option"

record raw_issue =
  i_key :: ustring
  i_fields :: "raw_fields option"

record task_stats =
  ts_done :: int
  ts_inProgress :: int
  ts_todo :: int
  ts_total :: int

record 'c goal_record =
  g_id :: int
  g_title :: ustring
  g_client :: "ustring option"
  g_tag :: ustring
  completed :: bool
  completionPercent :: int
  taskStats :: task_stats
  g_tasks :: "ustring list"
  comments :: "'c list"

record 'c existing_goal =
  eg_id :: int
  eg_comments :: "'c list option"

record 'c existing_sprint =
  e_status :: "ustring option"
  e_goals :: "'c existing_goal list option"
  e_sideGoals :: "'c existing_goal list option"
  e_achievements :: "ustring option"
  e_nextSprintPlans :: "ustring option"
  e_closedAt :: "ustring option"

record 'c stored_sprint =
  o_id :: int
  o_name :: ustring
  o_status :: ustring
  o_startDate :: ustring
  o_endDate :: ustring
  o_goals :: "'c goal_record list"
  o_sideGoals :: "'c goal_record list"
  o_achievements :: ustring
  o_tasks :: "task list"
  o_nextSprintPlans :: ustring
  o_jiraBaseUrl :: ustring
  o_jiraTimelineUrl :: ustring
  o_closedAt :: "ustring option"

record os_environ =
  JIRA_URL :: "ustring option"
  JIRA_BOARD_ID :: "ustring option"
  JIRA_PROJECT_KEY :: "ustring option"

subsection \<open>transform_issue\<close>

definition empty_fields :: raw_fields where
  "empty_fields =
     \<lparr> f_summary = None, f_status = None, f_labels = None, f_assignee = None,
       customfield_10014 = None \<rparr>"

text \<open>
  The epic cache is threaded through the calls; \<open>get_epic_name\<close> is the tracker's answer.
  A cached value may itself be \<open>None\<close>.
\<close>

definition transform_issue ::
  "pyenv \<Rightarrow> (ustring \<Rightarrow> ustring option) \<Rightarrow> raw_issue \<Rightarrow> (ustring \<rightharpoonup> ustring option)
     \<Rightarrow> task \<times> (ustring \<rightharpoonup> ustring option)" where
  "transform_issue U get_epic_name issue epic_cache =
     (let fields = (case i_fields issue of None \<Rightarrow> empty_fields | Some f \<Rightarrow> f);
          epic_key = customfield_10014 fields;
          cache' =
            (case epic_key of
               None \<Rightarrow> epic_cache
             | Some k \<Rightarrow>
                 if k = [] then epic_cache
                 else if epic_cache k = None then epic_cache(k \<mapsto> get_epic_name k)
                 else epic_cache);
          epic_name =
            (case epic_key of
               None \<Rightarrow> None
             | Some k \<Rightarrow>
                 if k = [] then None
                 else (case cache' k of None \<Rightarrow> None | Some v \<Rightarrow> v));
          asg =
            (case f_assignee fields of
               None \<Rightarrow> None
             | Some a \<Rightarrow>
                 if displayName a = None \<and> login_name a = None then None
                 else (case displayName a of Some n \<Rightarrow> Some n | None \<Rightarrow> login_name a))
      in (\<lparr> key = i_key issue,
            summary = str_or (f_summary fields),
            status = map_jira_status U (f_status fields),
            labels = (case f_labels fields of None \<Rightarrow> [] | Some ls \<Rightarrow> ls),
            epic = epic_name,
            assignee = asg \<rparr>, cache'))"

fun transform_issues ::
  "pyenv \<Rightarrow> (ustring \<Rightarrow> ustring option) \<Rightarrow> raw_issue list \<Rightarrow> (ustring \<rightharpoonup> ustring option)
     \<Rightarrow> task list" where
  "transform_issues U get_epic_name [] epic_cache = []"
| "transform_issues U get_epic_name (issue # issues) epic_cache =
     (case transform_issue U get_epic_name issue epic_cache of
        (t, cache') \<Rightarrow> t # transform_issues U get_epic_name issues cache')"

subsection \<open>build_sprint_data\<close>

text \<open>\<open>bool(existing_data)\<close>: the stored record has a key.\<close>

definition existing_truthy :: "'c existing_sprint \<Rightarrow> bool" where
  "existing_truthy e =
     (e_status e \<noteq> None \<or> e_goals e \<noteq> None \<or> e_sideGoals e \<noteq> None \<or>
      e_achievements e \<noteq> None \<or> e_nextSprintPlans e \<noteq> None \<or> e_closedAt e \<noteq> None)"

text \<open>
  \<open>next((g for g in stored if g['id'] == i), None)\<close> followed by
  \<open>existing_goal.get('comments', [])\<close>.
\<close>

definition existing_comments ::
  "'c existing_sprint option \<Rightarrow> ('c existing_sprint \<Rightarrow> 'c existing_goal list option) \<Rightarrow> int
     \<Rightarrow> 'c list" where
  "existing_comments existing_data section_of i =
     (case existing_data of
        None \<Rightarrow> []
      | Some e \<Rightarrow>
          if \<not> existing_truthy e then []
          else
            (case find (\<lambda>g. eg_id g = i)
                       (case section_of e of None \<Rightarrow> [] | Some gs \<Rightarrow> gs) of
               None \<Rightarrow> []
             | Some existing_goal \<Rightarrow>
                 (case eg_comments existing_goal of None \<Rightarrow> [] | Some cs \<Rightarrow> cs)))"

definition make_goal_record :: "decl \<Rightarrow> progress \<Rightarrow> ustring list \<Rightarrow> 'c list \<Rightarrow> 'c goal_record" where
  "make_goal_record goal_data prog task_keys existing_cs =
     \<lparr> g_id = goal_id goal_data,
       g_title = title goal_data,
       g_client = client goal_data,
       g_tag = tag goal_data,
       completed = (percent prog = 100),
       completionPercent = percent prog,
       taskStats = \<lparr> ts_done = done_n prog, ts_inProgress = inProgress prog,
                     ts_todo = todo prog, ts_total = total prog \<rparr>,
       g_tasks = task_keys,
       comments = existing_cs \<rparr>"

definition build_goal ::
  "pyenv \<Rightarrow> task list \<Rightarrow> 'c existing_sprint option \<Rightarrow> decl \<Rightarrow> 'c goal_record" where
  "build_goal U tasks existing_data goal_data =
     (let goal_tasks =
            map key (filter (\<lambda>t. map_task_to_goal U (labels t) [goal_data]
                                   = Some (tag goal_data)) tasks);
          prog = calculate_goal_progress (filter (\<lambda>t. key t \<in> set goal_tasks) tasks)
      in make_goal_record goal_data prog goal_tasks
           (existing_comments existing_data e_goals (goal_id goal_data)))"

definition build_side_goal ::
  "pyenv \<Rightarrow> task list \<Rightarrow> 'c existing_sprint option \<Rightarrow> decl \<Rightarrow> 'c goal_record" where
  "build_side_goal U tasks existing_data sg_data =
     (let sg_tasks =
            map key (filter (\<lambda>t. map_task_to_side_goal U (labels t) [sg_data]
                                   = Some (tag sg_data)) tasks);
          prog = calculate_goal_progress (filter (\<lambda>t. key t \<in> set sg_tasks) tasks)
      in make_goal_record sg_data prog sg_tasks
           (existing_comments existing_data e_sideGoals (goal_id sg_data)))"

text \<open>\<open>existing_data.get(k) if existing_data else None\<close>.\<close>

definition existing_get ::
  "'c existing_sprint option \<Rightarrow> ('c existing_sprint \<Rightarrow> ustring option) \<Rightarrow> ustring option" where
  "existing_get existing_data field =
     (case existing_data of
        None \<Rightarrow> None
      | Some e \<Rightarrow> if existing_truthy e then field e else None)"

definition date_part :: "ustring option \<Rightarrow> ustring" where
  "date_part d =
     (let s = str_or d in
      if s \<noteq> [] then (case split 84 s of [] \<Rightarrow> [] | x # xs \<Rightarrow> x) else s)"

definition getenv_or_empty :: "ustring option \<Rightarrow> ustring" where
  "getenv_or_empty v = str_or v"

definition format_optional :: "ustring option \<Rightarrow> ustring" where
  "format_optional v = (case v of None \<Rightarrow> ustr ''None'' | Some s \<Rightarrow> s)"

text \<open>
  \<open>build_sprint_data\<close> of \<open>sync_jira.py\<close>, with the two label prefixes as arguments;
  \<open>sync_jira_to_repo.py\<close> has the same function with the prefixes fixed to their defaults.
\<close>

definition build_sprint_data ::
  "pyenv \<Rightarrow> os_environ \<Rightarrow> raw_sprint \<Rightarrow> task list \<Rightarrow> 'c existing_sprint option
     \<Rightarrow> ustring \<Rightarrow> ustring \<Rightarrow> 'c stored_sprint" where
  "build_sprint_data U environ sprint tasks existing_data goal_prefix side_goal_prefix =
     (let description = str_or (rs_goal sprint);
          parsed = parse_sprint_description U description goal_prefix side_goal_prefix;
          gs = map (build_goal U tasks existing_data) (goals parsed);
          side_goals = map (build_side_goal U tasks existing_data) (sideGoals parsed);
          st = (if str_lower U (str_or (rs_state sprint)) = ustr ''closed''
                then ustr ''closed'' else ustr ''active'');
          start_date = date_part (rs_startDate sprint);
          end_date = date_part (rs_endDate sprint);
          jira_url = rev (dropWhile (\<lambda>c. c = 47) (rev (getenv_or_empty (JIRA_URL environ))));
          board_id = getenv_or_empty (JIRA_BOARD_ID environ);
          timeline_url = jira_url @ ustr ''/jira/software/c/projects/''
                           @ format_optional (JIRA_PROJECT_KEY environ)
                           @ ustr ''/boards/'' @ board_id @ ustr ''/timeline'';
          existing_next_plans = str_or (existing_get existing_data e_nextSprintPlans);
          existing_achievements = str_or (existing_get existing_data e_achievements)
      in \<lparr> o_id = rs_id sprint,
           o_name = (case rs_name sprint of
                       None \<Rightarrow> ustr ''Sprint '' @ str_int (rs_id sprint)
                     | Some n \<Rightarrow> n),
           o_status = st,
           o_startDate = start_date,
           o_endDate = end_date,
           o_goals = gs,
           o_sideGoals = side_goals,
           o_achievements = existing_achievements,
           o_tasks = tasks,
           o_nextSprintPlans = existing_next_plans,
           o_jiraBaseUrl = jira_url,
           o_jiraTimelineUrl = timeline_url,
           o_closedAt = existing_get existing_data e_closedAt \<rparr>)"

definition build_sprint_data_repo ::
  "pyenv \<Rightarrow> os_environ \<Rightarrow> raw_sprint \<Rightarrow> task list \<Rightarrow> 'c existing_sprint option
     \<Rightarrow> 'c stored_sprint" where
  "build_sprint_data_repo U environ sprint tasks existing_data =
     build_sprint_data U environ sprint tasks existing_data (ustr ''cel'') (ustr ''extra'')"

subsection \<open>main\<close>

text \<open>
  What a run meets outside the program: the command line, the tracker's answers, the
  stored files and the storage service. What a run does to the outside is a list of
  events, in order: each call of \<open>build_sprint_data\<close> and each write.
\<close>

datatype 'c load_result = Missing | Unreadable | Loaded "'c existing_sprint"

record 'c world =
  arg_sprint_id :: "int option"
  get_sprint :: "int \<Rightarrow> raw_sprint option"
  get_active_sprint :: "raw_sprint option"
  get_sprint_issues :: "int \<Rightarrow> raw_issue list"
  get_epic_name :: "ustring \<Rightarrow> ustring option"
  stored_file :: "int \<Rightarrow> 'c load_result"
  environ :: os_environ
  config_goalPrefix :: "ustring option"
  config_sideGoalPrefix :: "ustring option"
  repo_token :: ustring
  verify_connection :: bool
  update_sprint_ok :: bool
  update_current_ok :: bool

datatype 'c event =
    Build
  | WriteSprint int "'c stored_sprint"
  | WriteCurrent int bool

datatype outcome = Returned | Exit int | Raised

text \<open>The sprint to synchronise, or the exit status of the run that finds none.\<close>

definition select_sprint :: "'c world \<Rightarrow> int + raw_sprint" where
  "select_sprint W =
     (if arg_sprint_id W \<noteq> None \<and> arg_sprint_id W \<noteq> Some 0
      then (case get_sprint W (the (arg_sprint_id W)) of
              None \<Rightarrow> Inl 1
            | Some sprint \<Rightarrow> Inr sprint)
      else (case get_active_sprint W of
              None \<Rightarrow> Inl 0
            | Some sprint \<Rightarrow> Inr sprint))"

definition is_closed_locally :: "'c existing_sprint option \<Rightarrow> bool" where
  "is_closed_locally existing_data =
     (case existing_data of
        None \<Rightarrow> False
      | Some e \<Rightarrow> existing_truthy e \<and> e_status e = Some (ustr ''closed''))"

text \<open>\<open>main\<close> of \<open>sync_jira.py\<close>: the stored record is a local file.\<close>

definition main_local :: "pyenv \<Rightarrow> 'c world \<Rightarrow> outcome \<times> 'c event list" where
  "main_local U W =
     (case select_sprint W of
        Inl code \<Rightarrow> (Exit code, [])
      | Inr sprint \<Rightarrow>
          let sprint_id = rs_id sprint;
              issues = get_sprint_issues W sprint_id;
              tasks = transform_issues U (get_epic_name W) issues Map.empty
          in
          (case stored_file W sprint_id of
             Unreadable \<Rightarrow> (Raised, [])
           | loaded \<Rightarrow>
               let existing_data = (case loaded of Loaded e \<Rightarrow> Some e | _ \<Rightarrow> None) in
               if is_closed_locally existing_data then (Exit 0, [])
               else
                 let goal_prefix = (case config_goalPrefix W of
                                      None \<Rightarrow> ustr ''cel'' | Some p \<Rightarrow> p);
                     side_goal_prefix = (case config_sideGoalPrefix W of
                                           None \<Rightarrow> ustr ''extra'' | Some p \<Rightarrow> p);
                     sprint_data = build_sprint_data U (environ W) sprint tasks existing_data
                                     goal_prefix side_goal_prefix;
                     is_active = (str_lower U (str_or (rs_state sprint)) = ustr ''active'')
                 in (Returned,
                     [Build, WriteSprint (o_id sprint_data) sprint_data,
                      WriteCurrent sprint_id is_active])))"

text \<open>
  \<open>main\<close> of \<open>sync_jira_to_repo.py\<close>: the stored record is a file of the data repository;
  a file that cannot be fetched or decoded counts as absent, and a failed write ends
  the run with status 1.
\<close>

definition main_repo :: "pyenv \<Rightarrow> 'c world \<Rightarrow> outcome \<times> 'c event list" where
  "main_repo U W =
     (if repo_token W = [] then (Exit 1, [])
      else if \<not> verify_connection W then (Exit 1, [])
      else
        (case select_sprint W of
           Inl code \<Rightarrow> (Exit code, [])
         | Inr sprint \<Rightarrow>
             let sprint_id = rs_id sprint;
                 issues = get_sprint_issues W sprint_id;
                 tasks = transform_issues U (get_epic_name W) issues Map.empty;
                 existing_data = (case stored_file W sprint_id of
                                    Loaded e \<Rightarrow> Some e | _ \<Rightarrow> None)
             in
             if is_closed_locally existing_data then (Exit 0, [])
             else
               let sprint_data = build_sprint_data_repo U (environ W) sprint tasks existing_data;
                   is_active = (str_lower U (str_or (rs_state sprint)) = ustr ''active'')
               in
               if \<not> update_sprint_ok W
               then (Exit 1, [Build, WriteSprint sprint_id sprint_data])
               else if \<not> update_current_ok W
               then (Exit 1, [Build, WriteSprint sprint_id sprint_data,
                             WriteCurrent sprint_id is_active])
               else (Returned, [Build, WriteSprint sprint_id sprint_data,
                                WriteCurrent sprint_id is_active])))"

section \<open>The specification's notions\<close>

subsection \<open>Status mapping\<close>

definition canonical :: "ustring set" where
  "canonical = {ustr ''Done'', ustr ''In Progress'', ustr ''To Do''}"

text \<open>
  The mapping as the specification words it: absent input gives To Do; else the
  category key, compared case-insensitively with the three known keys, decides; else
  the trimmed, lowercased name is looked up in the synonym table; else To Do.
\<close>

definition spec_status :: "pyenv \<Rightarrow> status_field option \<Rightarrow> ustring" where
  "spec_status U s =
     (case s of
        None \<Rightarrow> ustr ''To Do''
      | Some sf \<Rightarrow>
          (let k = (case sf_statusCategory sf of None \<Rightarrow> None | Some sc \<Rightarrow> sc_key sc);
               by_key =
                 (case k of
                    None \<Rightarrow> None
                  | Some k \<Rightarrow>
                      if str_lower U k = ustr ''done'' then Some (ustr ''Done'')
                      else if str_lower U k = ustr ''indeterminate''
                      then Some (ustr ''In Progress'')
                      else if str_lower U k = ustr ''new'' then Some (ustr ''To Do'')
                      else None)
           in case by_key of
                Some r \<Rightarrow> r
              | None \<Rightarrow>
                  (case sf_name sf of
                     None \<Rightarrow> ustr ''To Do''
                   | Some n \<Rightarrow>
                       (case map_of STATUS_NAME_FALLBACK (strip U (str_lower U n)) of
                          Some r \<Rightarrow> r
                        | None \<Rightarrow> ustr ''To Do''))))"

subsection \<open>Content carried over from the stored record\<close>

definition stored_goals :: "'c existing_sprint option \<Rightarrow> 'c existing_goal list" where
  "stored_goals existing_data =
     (case existing_data of
        None \<Rightarrow> []
      | Some e \<Rightarrow> (case e_goals e of None \<Rightarrow> [] | Some gs \<Rightarrow> gs))"

definition stored_side_goals :: "'c existing_sprint option \<Rightarrow> 'c existing_goal list" where
  "stored_side_goals existing_data =
     (case existing_data of
        None \<Rightarrow> []
      | Some e \<Rightarrow> (case e_sideGoals e of None \<Rightarrow> [] | Some gs \<Rightarrow> gs))"

definition stored_comments :: "'c existing_goal \<Rightarrow> 'c list" where
  "stored_comments g = (case eg_comments g of None \<Rightarrow> [] | Some cs \<Rightarrow> cs)"

text \<open>The comments a rebuilt declaration with id \<open>i\<close> must carry, given the stored goals.\<close>

definition carried_over :: "'c existing_goal list \<Rightarrow> int \<Rightarrow> 'c list \<Rightarrow> bool" where
  "carried_over stored i cs =
     (if list_ex (\<lambda>g. eg_id g = i) stored
      then list_ex (\<lambda>g. eg_id g = i \<and> cs = stored_comments g) stored
           \<and> (distinct (map eg_id stored) \<longrightarrow>
                list_all (\<lambda>g. eg_id g = i \<longrightarrow> cs = stored_comments g) stored)
      else cs = [])"


subsection \<open>Example data\<close>

definition example_environ :: os_environ where
  "example_environ =
     \<lparr> JIRA_URL = Some (ustr ''https://jira.example.com/''), JIRA_BOARD_ID = Some (ustr ''12''),
       JIRA_PROJECT_KEY = Some (ustr ''REV'') \<rparr>"

definition example_sprint :: raw_sprint where
  "example_sprint =
     \<lparr> rs_id = 7, rs_name = None, rs_goal = Some (ustr ''1. [A] ship''),
       rs_state = Some (ustr ''active''), rs_startDate = Some (ustr ''2024-05-06T09:00:00Z''),
       rs_endDate = None \<rparr>"

definition example_existing :: "nat existing_sprint" where
  "example_existing =
     \<lparr> e_status = Some (ustr ''active''),
       e_goals = Some [\<lparr> eg_id = 1, eg_comments = Some [42] \<rparr>],
       e_sideGoals = None,
       e_achievements = Some (ustr ''won''),
       e_nextSprintPlans = None,
       e_closedAt = None \<rparr>"

definition example_closed :: "nat existing_sprint" where
  "example_closed = example_existing \<lparr> e_status := Some (ustr ''closed'') \<rparr>"

definition example_world :: "nat world" where
  "example_world =
     \<lparr> arg_sprint_id = None,
       get_sprint = (\<lambda>i. None),
       get_active_sprint = Some example_sprint,
       get_sprint_issues = (\<lambda>i. []),
       get_epic_name = (\<lambda>k. None),
       stored_file = (\<lambda>i. Loaded example_closed),
       environ = example_environ,
       config_goalPrefix = None,
       config_sideGoalPrefix = None,
       repo_token = ustr ''t'',
       verify_connection = True,
       update_sprint_ok = True,
       update_current_ok = True \<rparr>"

subsection \<open>Tag matching\<close>

text \<open>
  A label matches the candidate tags when its lowercased form is one of them, or is
  equal to one of them once hyphens, underscores and whitespace are deleted from both.
\<close>

definition label_matches :: "pyenv \<Rightarrow> ustring list \<Rightarrow> ustring \<Rightarrow> bool" where
  "label_matches U tags label =
     (str_lower U label \<in> set tags \<or>
      list_ex (\<lambda>t. normalize_label U (str_lower U label) = normalize_label U t) tags)"

text \<open>
  \<open>first_match U tags labels r\<close>: \<open>r\<close> is a candidate tag and answers the first label that
  matches: that label lowercased when it is itself a candidate, otherwise a candidate
  equal to it after the deletion.
\<close>

definition first_match :: "pyenv \<Rightarrow> ustring list \<Rightarrow> ustring list \<Rightarrow> ustring \<Rightarrow> bool" where
  "first_match U tags task_labels r =
     (r \<in> set tags \<and>
      (\<exists>before label after.
         task_labels = before @ label # after \<and>
         \<not> list_ex (label_matches U tags) before \<and>
         label_matches U tags label \<and>
         (if str_lower U label \<in> set tags then r = str_lower U label
          else normalize_label U r = normalize_label U (str_lower U label))))"

definition lowered_tags :: "pyenv \<Rightarrow> decl list \<Rightarrow> ustring list" where
  "lowered_tags U gs = map (\<lambda>g. str_lower U (tag g)) gs"

definition example_goal :: decl where
  "example_goal = \<lparr> goal_id = 1, title = ustr ''ship'', client = None, tag = ustr ''cel1'' \<rparr>"

subsection \<open>Numbering of the declarations\<close>

text \<open>
  The declarations of a section are numbered from one when their ids are 1, 2, ..., n in
  list order and each tag is the prefix followed by the decimal numeral of the id.
\<close>

definition numbered_from_one :: "ustring \<Rightarrow> decl list \<Rightarrow> bool" where
  "numbered_from_one prefix ds =
     (map goal_id ds = [1..int (length ds)] \<and>
      list_all (\<lambda>d. tag d = prefix @ str_int (goal_id d)) ds)"

text \<open>The number a decimal numeral denotes.\<close>

definition undigits :: "ustring \<Rightarrow> nat" where
  "undigits s = foldl (\<lambda>a c. 10 * a + (c - 48)) 0 s"

text \<open>Two states of the loop with the same declarations and counters.\<close>

definition same_output :: "parse_state \<Rightarrow> parse_state \<Rightarrow> bool" where
  "same_output st st' =
     (result st = result st' \<and> goal_counter st = goal_counter st' \<and>
      side_goal_counter st = side_goal_counter st')"

text \<open>A line that holds one of the six phrases the second loop takes for a header.\<close>

definition holds_header_phrase :: "pyenv \<Rightarrow> ustring \<Rightarrow> bool" where
  "holds_header_phrase U line =
     list_ex (\<lambda>k. str_in k (str_lower U (strip U line))) (goal_keywords @ side_goal_keywords)"

text \<open>
  What the second loop does with one line, given the mode and the current section:
  nothing, a change of section, or one declaration for a section.
\<close>

datatype action = Skip | Header "section_name option" | Declare section_name "ustring option" ustring

definition line_action :: "pyenv \<Rightarrow> bool \<Rightarrow> section_name option \<Rightarrow> ustring \<Rightarrow> action" where
  "line_action U has_headers cur line0 =
     (let line = strip U line0 in
      if line = [] then Skip
      else if list_ex (\<lambda>k. str_in k (str_lower U line)) goal_keywords then Header (Some Goals)
      else if list_ex (\<lambda>k. str_in k (str_lower U line)) side_goal_keywords
      then Header (Some SideGoals)
      else if is_section_header line then Header None
      else if \<not> is_numbered_item U line \<and> \<not> is_dash_item U line then Skip
      else
        (case (if has_headers then cur
               else if is_numbered_item U line then Some Goals else Some SideGoals) of
           None \<Rightarrow> Skip
         | Some sec \<Rightarrow>
             if remove_marker U line = [] then Skip
             else Declare sec (fst (parse_client_from_text U (remove_marker U line)))
                              (snd (parse_client_from_text U (remove_marker U line)))))"

definition apply_action :: "ustring \<Rightarrow> ustring \<Rightarrow> parse_state \<Rightarrow> action \<Rightarrow> parse_state" where
  "apply_action gp sp st a =
     (case a of
        Skip \<Rightarrow> st
      | Header s \<Rightarrow> st\<lparr> current_section := s \<rparr>
      | Declare Goals cl ti \<Rightarrow> add_goal gp cl ti st
      | Declare SideGoals cl ti \<Rightarrow> add_side_goal sp cl ti st)"

text \<open>The state of the second loop keeps both sections numbered and both counters at
  the number of declarations made.\<close>

definition well_numbered :: "ustring \<Rightarrow> ustring \<Rightarrow> parse_state \<Rightarrow> bool" where
  "well_numbered gp sp st =
     (numbered_from_one gp (goals (result st)) \<and>
      numbered_from_one sp (sideGoals (result st)) \<and>
      goal_counter st = int (length (goals (result st))) \<and>
      side_goal_counter st = int (length (sideGoals (result st))))"

definition example_description :: ustring where
  "example_description =
     ustr ''1. [A] ship'' @ [10] @ ustr ''- tidy up'' @ [10] @ ustr ''2) test [B]''"

subsection \<open>Marker mode\<close>

text \<open>
  The declarations made from a list of item lines: the k-th line gets the id k and its
  client and title from the text after the marker.
\<close>

definition item_decl :: "pyenv \<Rightarrow> ustring \<Rightarrow> nat \<times> ustring \<Rightarrow> decl" where
  "item_decl U prefix p =
     \<lparr> goal_id = int (fst p),
       title = snd (parse_client_from_text U (remove_marker U (strip U (snd p)))),
       client = fst (parse_client_from_text U (remove_marker U (strip U (snd p)))),
       tag = prefix @ str_int (int (fst p)) \<rparr>"

definition declare_items :: "pyenv \<Rightarrow> ustring \<Rightarrow> ustring list \<Rightarrow> decl list" where
  "declare_items U prefix ls = map (item_decl U prefix) (enumerate 1 ls)"

text \<open>
  In marker mode a goal line is a line that, once stripped, begins with digits
  followed by a dot, a closing parenthesis or whitespace, holds none of the header
  phrases and has text after the marker; a side-goal line begins with a hyphen or an
  asterisk followed by whitespace and holds none of the header phrases.
\<close>

definition goal_line :: "pyenv \<Rightarrow> ustring \<Rightarrow> bool" where
  "goal_line U l =
     (is_numbered_item U (strip U l) \<and> \<not> holds_header_phrase U l \<and>
      remove_marker U (strip U l) \<noteq> [])"

definition side_goal_line :: "pyenv \<Rightarrow> ustring \<Rightarrow> bool" where
  "side_goal_line U l = (is_dash_item U (strip U l) \<and> \<not> holds_header_phrase U l)"

text \<open>
  What the statements about list markers use of the interpreter's tables: the number
  sign, the asterisk and the hyphen are not decimal digits, and the asterisk is not
  whitespace.
\<close>

definition punctuation_plain :: "pyenv \<Rightarrow> bool" where
  "punctuation_plain U =
     (\<not> isdecimal U 35 \<and> \<not> isdecimal U 42 \<and> \<not> isdecimal U 45 \<and> \<not> isspace U 42)"

subsection \<open>Header mode\<close>

text \<open>
  The header a line is, if any: a goals header, a side-goals header, or another header
  (a line beginning with two number signs or two asterisks), which names no section.
\<close>

definition header_of :: "pyenv \<Rightarrow> ustring \<Rightarrow> section_name option option" where
  "header_of U l =
     (if strip U l = [] then None
      else if list_ex (\<lambda>k. str_in k (str_lower U (strip U l))) goal_keywords
      then Some (Some Goals)
      else if list_ex (\<lambda>k. str_in k (str_lower U (strip U l))) side_goal_keywords
      then Some (Some SideGoals)
      else if is_section_header (strip U l) then Some None
      else None)"

text \<open>The section named by the header that appeared most recently among the lines.\<close>

definition section_after :: "pyenv \<Rightarrow> ustring list \<Rightarrow> section_name option" where
  "section_after U ls =
     (case List.map_filter (header_of U) (rev ls) of
        [] \<Rightarrow> None
      | h # hs \<Rightarrow> h)"

text \<open>
  A list item: a line that is not a header, begins with a numbered or a dash marker
  and has text after the marker.
\<close>

definition list_item :: "pyenv \<Rightarrow> ustring \<Rightarrow> bool" where
  "list_item U l =
     (header_of U l = None \<and>
      (is_numbered_item U (strip U l) \<or> is_dash_item U (strip U l)) \<and>
      remove_marker U (strip U l) \<noteq> [])"

text \<open>The list items whose most recent header, among the lines before them, names the
  section \<open>s\<close>; in the order of the lines.\<close>

definition items_under :: "pyenv \<Rightarrow> section_name \<Rightarrow> ustring list \<Rightarrow> ustring list" where
  "items_under U s ls =
     map (\<lambda>i. ls ! i)
         (filter (\<lambda>i. section_after U (take i ls) = Some s \<and> list_item U (ls ! i))
                 [0..<length ls])"

definition example_with_headers :: ustring where
  "example_with_headers =
     ustr ''1. a'' @ [10] @ ustr ''side goals'' @ [10] @ ustr ''1. b'' @ [10]
       @ ustr ''## n'' @ [10] @ ustr ''- c'' @ [10] @ ustr ''Sprint Goals'' @ [10]
       @ ustr ''- [A] d'' @ [10] @ ustr ''3.''"

subsection \<open>The client tag\<close>

text \<open>
  The leftmost bracketed substring of a text (an opening bracket, one or more
  characters other than the closing bracket, the closing bracket), with the text
  before it, its contents and the text after it.
\<close>

fun first_bracket :: "ustring \<Rightarrow> (ustring \<times> ustring \<times> ustring) option" where
  "first_bracket [] = None"
| "first_bracket (c # cs) =
     (case bracket_at (c # cs) of
        Some (g, r) \<Rightarrow> Some ([], g, r)
      | None \<Rightarrow>
          (case first_bracket cs of
             Some (pre, g, r) \<Rightarrow> Some (c # pre, g, r)
           | None \<Rightarrow> None))"

text \<open>
  Client and title as the specification words them: the client is the contents of
  the first bracketed substring; the title is the text with that one substring taken
  out, the whitespace around the gap collapsed to one space, trimmed.
\<close>

definition first_bracket_only :: "pyenv \<Rightarrow> ustring \<Rightarrow> ustring option \<times> ustring" where
  "first_bracket_only U text0 =
     (case first_bracket (strip U text0) of
        None \<Rightarrow> (None, strip U text0)
      | Some (pre, g, post) \<Rightarrow>
          (Some (strip U g), strip U (rstrip U pre @ 32 # lstrip U post)))"

subsection \<open>Progress\<close>

definition count_status :: "ustring \<Rightarrow> task list \<Rightarrow> nat" where
  "count_status s ts = length (filter (\<lambda>t. status t = s) ts)"

text \<open>
  The percentage under the two rounding rules the specification allows, on the exact
  quotient: to the nearest integer, a tie going to the even neighbour, or a tie going
  up.
\<close>

definition percent_half_even :: "nat \<Rightarrow> nat \<Rightarrow> int" where
  "percent_half_even d t = int (round_half_even (100 * d) t)"

definition percent_half_up :: "nat \<Rightarrow> nat \<Rightarrow> int" where
  "percent_half_up d t = int ((200 * d + t) div (2 * t))"

text \<open>The value of a double.\<close>

definition double_value :: "double \<Rightarrow> real" where
  "double_value x = real (mant x) * 2 powr real_of_int (expo x)"

definition task_with_status :: "ustring \<Rightarrow> task" where
  "task_with_status s =
     \<lparr> key = [], summary = [], status = s, labels = [], epic = None, assignee = None \<rparr>"

section \<open>Properties of the status mapper\<close>

lemma category_map_range:
  "map_of STATUS_CATEGORY_MAP k = Some r \<Longrightarrow> r \<in> canonical"
  by (drule map_of_SomeD) (auto simp: STATUS_CATEGORY_MAP_def canonical_def)

lemma name_fallback_range:
  "map_of STATUS_NAME_FALLBACK k = Some r \<Longrightarrow> r \<in> canonical"
  by (drule map_of_SomeD) (auto simp: STATUS_NAME_FALLBACK_def canonical_def)

lemma category_map_eq:
  "map_of STATUS_CATEGORY_MAP k =
     (if k = ustr ''done'' then Some (ustr ''Done'')
      else if k = ustr ''indeterminate'' then Some (ustr ''In Progress'')
      else if k = ustr ''new'' then Some (ustr ''To Do'')
      else None)"
  by (simp add: STATUS_CATEGORY_MAP_def)

lemma map_jira_status_canonical: "map_jira_status U s \<in> canonical"
  unfolding map_jira_status_def category_result_def name_result_def
  by (auto simp: canonical_def Let_def split: option.splits
           dest: category_map_range name_fallback_range)

lemma empty_not_in_fallback: "map_of STATUS_NAME_FALLBACK [] = None"
  by (simp add: STATUS_NAME_FALLBACK_def ustr_def)

lemma strip_Nil: "strip U [] = []"
  by (simp add: strip_def lstrip_def rstrip_def)

lemma map_jira_status_spec:
  assumes "str_lower U [] = []"
  shows "map_jira_status U s = spec_status U s"
  using assms
  unfolding map_jira_status_def spec_status_def category_result_def name_result_def
    status_truthy_def category_truthy_def str_or_def
  by (auto simp: Let_def category_map_eq empty_not_in_fallback strip_Nil split: option.splits)

lemma py_lower_Nil: "str_lower py [] = []"
  by (simp add: py_def)

lemma category_done_any_name:
  "map_jira_status py
     (Some \<lparr> sf_name = n, sf_statusCategory = Some \<lparr> sc_key = Some (ustr ''done'') \<rparr> \<rparr>)
   = ustr ''Done''"
  by (simp add: map_jira_status_def status_truthy_def category_result_def category_truthy_def
      str_or_def category_map_eq py_def ustr_def lower_cp_def)

lemma backlog_name:
  "map_jira_status py (Some \<lparr> sf_name = Some (ustr ''Backlog''), sf_statusCategory = None \<rparr>)
   = ustr ''To Do''"
  by code_simp

text \<open>
  C6. \<open>map_jira_status\<close> is total and its result is one of Done, In Progress, To Do. It
  computes the mapping of the specification: absent or empty input gives To Do; a
  category key that is, case-insensitively, done, indeterminate or new decides
  whatever the name is; otherwise the trimmed, lowercased name is looked up in the
  synonym table; otherwise To Do. (The only fact used of \<open>str.lower\<close> is that it maps the
  empty string to itself.) With the interpreter's tables, the category key done gives
  Done for every name, the name Backlog gives To Do, and \<open>None\<close> gives To Do.
\<close>

theorem map_jira_status_correct:
  assumes "str_lower U [] = []"
  shows "map_jira_status U s \<in> canonical
       \<and> map_jira_status U s = spec_status U s
       \<and> map_jira_status U None = ustr ''To Do''
       \<and> map_jira_status U (Some \<lparr> sf_name = None, sf_statusCategory = None \<rparr>) = ustr ''To Do''
       \<and> map_jira_status py
            (Some \<lparr> sf_name = n, sf_statusCategory = Some \<lparr> sc_key = Some (ustr ''done'') \<rparr> \<rparr>)
           = ustr ''Done''
       \<and> map_jira_status py
            (Some \<lparr> sf_name = Some (ustr ''Backlog''), sf_statusCategory = None \<rparr>)
           = ustr ''To Do''"
proof -
  have "map_jira_status U None = ustr ''To Do''"
    by (simp add: map_jira_status_def)
  moreover have
    "map_jira_status U (Some \<lparr> sf_name = None, sf_statusCategory = None \<rparr>) = ustr ''To Do''"
    by (simp add: map_jira_status_def status_truthy_def)
  ultimately show ?thesis
    using map_jira_status_canonical [of U s] map_jira_status_spec [OF assms, of s]
      category_done_any_name [of n] backlog_name
    by simp
qed

theorem map_jira_status_correct_witness:
  "str_lower py [] = []
   \<and> map_jira_status py
       (Some \<lparr> sf_name = Some (ustr '' In Review ''), sf_statusCategory =
                Some \<lparr> sc_key = Some (ustr ''Unknown'') \<rparr> \<rparr>) \<in> canonical
   \<and> map_jira_status py
       (Some \<lparr> sf_name = Some (ustr '' In Review ''), sf_statusCategory =
                Some \<lparr> sc_key = Some (ustr ''Unknown'') \<rparr> \<rparr>)
     = spec_status py
       (Some \<lparr> sf_name = Some (ustr '' In Review ''), sf_statusCategory =
                Some \<lparr> sc_key = Some (ustr ''Unknown'') \<rparr> \<rparr>)"
  using map_jira_status_correct [OF py_lower_Nil,
    of "Some \<lparr> sf_name = Some (ustr '' In Review ''), sf_statusCategory =
                Some \<lparr> sc_key = Some (ustr ''Unknown'') \<rparr> \<rparr>" None]
    py_lower_Nil
  by blast

section \<open>Properties of build_sprint_data\<close>

lemma find_id_distinct:
  "find (\<lambda>g. eg_id g = i) gs = Some x \<Longrightarrow> distinct (map eg_id gs) \<Longrightarrow> y \<in> set gs \<Longrightarrow>
   eg_id y = i \<Longrightarrow> y = x"
proof (induction gs)
  case Nil
  then show ?case by simp
next
  case (Cons g gs)
  show ?case
  proof (cases "eg_id g = i")
    case True
    then have x: "x = g" using Cons.prems(1) by simp
    have "eg_id g \<notin> eg_id ` set gs" using Cons.prems(2) by simp
    then have "y \<notin> set gs" using Cons.prems(4) True by force
    then show ?thesis using Cons.prems(3) x by simp
  next
    case False
    then have f: "find (\<lambda>g. eg_id g = i) gs = Some x" using Cons.prems(1) by simp
    have d: "distinct (map eg_id gs)" using Cons.prems(2) by simp
    have "y \<noteq> g" using False Cons.prems(4) by blast
    then have "y \<in> set gs" using Cons.prems(3) by simp
    then show ?thesis using Cons.IH [OF f d] Cons.prems(4) by blast
  qed
qed

lemma carried_over_find:
  "carried_over stored i
     (case find (\<lambda>g. eg_id g = i) stored of None \<Rightarrow> [] | Some g \<Rightarrow> stored_comments g)"
proof (cases "find (\<lambda>g. eg_id g = i) stored")
  case None
  moreover from None have "\<not> list_ex (\<lambda>g. eg_id g = i) stored"
    by (simp add: list_ex_iff find_None_iff)
  ultimately show ?thesis
    by (simp add: carried_over_def)
next
  case (Some x)
  then have x: "x \<in> set stored" "eg_id x = i"
    by (auto simp: find_Some_iff in_set_conv_nth)
  then have ex: "list_ex (\<lambda>g. eg_id g = i) stored"
    "list_ex (\<lambda>g. eg_id g = i \<and> stored_comments x = stored_comments g) stored"
    by (auto simp: list_ex_iff)
  have "list_all (\<lambda>g. eg_id g = i \<longrightarrow> stored_comments x = stored_comments g) stored"
    if "distinct (map eg_id stored)"
    unfolding list_all_iff
  proof (intro ballI impI)
    fix y assume "y \<in> set stored" "eg_id y = i"
    then have "y = x" using find_id_distinct [OF Some that] by blast
    then show "stored_comments x = stored_comments y" by simp
  qed
  with ex Some show ?thesis
    by (simp add: carried_over_def)
qed

lemma existing_comments_goals_eq:
  "existing_comments existing_data e_goals i =
     (case find (\<lambda>g. eg_id g = i) (stored_goals existing_data) of
        None \<Rightarrow> [] | Some g \<Rightarrow> stored_comments g)"
proof (cases existing_data)
  case None
  then show ?thesis by (simp add: existing_comments_def stored_goals_def)
next
  case (Some e)
  show ?thesis
  proof (cases "existing_truthy e")
    case True
    with Some show ?thesis
      by (simp add: existing_comments_def stored_goals_def stored_comments_def
               cong: option.case_cong)
  next
    case False
    then have "e_goals e = None" by (simp add: existing_truthy_def)
    with Some False show ?thesis
      by (simp add: existing_comments_def stored_goals_def)
  qed
qed

lemma existing_comments_side_goals_eq:
  "existing_comments existing_data e_sideGoals i =
     (case find (\<lambda>g. eg_id g = i) (stored_side_goals existing_data) of
        None \<Rightarrow> [] | Some g \<Rightarrow> stored_comments g)"
proof (cases existing_data)
  case None
  then show ?thesis by (simp add: existing_comments_def stored_side_goals_def)
next
  case (Some e)
  show ?thesis
  proof (cases "existing_truthy e")
    case True
    with Some show ?thesis
      by (simp add: existing_comments_def stored_side_goals_def stored_comments_def
               cong: option.case_cong)
  next
    case False
    then have "e_sideGoals e = None" by (simp add: existing_truthy_def)
    with Some False show ?thesis
      by (simp add: existing_comments_def stored_side_goals_def)
  qed
qed

lemma existing_comments_goals:
  "carried_over (stored_goals existing_data) i (existing_comments existing_data e_goals i)"
  by (simp only: existing_comments_goals_eq carried_over_find)

lemma existing_comments_side_goals:
  "carried_over (stored_side_goals existing_data) i
     (existing_comments existing_data e_sideGoals i)"
  by (simp only: existing_comments_side_goals_eq carried_over_find)

lemma build_goal_comments:
  "carried_over (stored_goals ex) (g_id (build_goal U tasks ex d)) (comments (build_goal U tasks ex d))"
  using existing_comments_goals [of ex "goal_id d"]
  by (simp add: build_goal_def make_goal_record_def Let_def)

lemma build_side_goal_comments:
  "carried_over (stored_side_goals ex) (g_id (build_side_goal U tasks ex d))
     (comments (build_side_goal U tasks ex d))"
  using existing_comments_side_goals [of ex "goal_id d"]
  by (simp add: build_side_goal_def make_goal_record_def Let_def)

lemma existing_get_eq:
  "existing_get ex f = (case ex of None \<Rightarrow> None | Some e \<Rightarrow> f e)
   \<or> (\<exists>e. ex = Some e \<and> \<not> existing_truthy e)"
  by (auto simp: existing_get_def split: option.splits)

lemma existing_get_fields:
  "existing_get ex e_achievements = (case ex of None \<Rightarrow> None | Some e \<Rightarrow> e_achievements e)"
  "existing_get ex e_nextSprintPlans = (case ex of None \<Rightarrow> None | Some e \<Rightarrow> e_nextSprintPlans e)"
  "existing_get ex e_closedAt = (case ex of None \<Rightarrow> None | Some e \<Rightarrow> e_closedAt e)"
  by (auto simp: existing_get_def existing_truthy_def split: option.splits)

lemma build_sprint_data_fields:
  "o_goals (build_sprint_data U env sprint tasks ex gp sp)
     = map (build_goal U tasks ex)
           (goals (parse_sprint_description U (str_or (rs_goal sprint)) gp sp))"
  "o_sideGoals (build_sprint_data U env sprint tasks ex gp sp)
     = map (build_side_goal U tasks ex)
           (sideGoals (parse_sprint_description U (str_or (rs_goal sprint)) gp sp))"
  "o_achievements (build_sprint_data U env sprint tasks ex gp sp)
     = str_or (existing_get ex e_achievements)"
  "o_nextSprintPlans (build_sprint_data U env sprint tasks ex gp sp)
     = str_or (existing_get ex e_nextSprintPlans)"
  "o_closedAt (build_sprint_data U env sprint tasks ex gp sp) = existing_get ex e_closedAt"
  by (simp_all add: build_sprint_data_def Let_def)

lemma build_goal_id: "g_id (build_goal U tasks ex d) = goal_id d"
  by (simp add: build_goal_def make_goal_record_def Let_def)

lemma build_side_goal_id: "g_id (build_side_goal U tasks ex d) = goal_id d"
  by (simp add: build_side_goal_def make_goal_record_def Let_def)

text \<open>
  C5. In the record \<open>build_sprint_data\<close> returns, the rebuilt goals and side goals are the
  parsed declarations in order; each carries the comments of the stored goal
  (respectively side goal) with the same id, verbatim, and no comments when no stored
  goal has that id or no stored record is given; achievements, nextSprintPlans and
  closedAt are those of the stored record, and the empty string, the empty string and
  null when there is none.
\<close>

theorem build_sprint_data_preserves:
  fixes ex :: "'c existing_sprint option" and U env sprint tasks gp sp
  defines "out \<equiv> build_sprint_data U env sprint tasks ex gp sp"
  defines "parsed \<equiv> parse_sprint_description U (str_or (rs_goal sprint)) gp sp"
  shows "map g_id (o_goals out) = map goal_id (goals parsed)
       \<and> map g_id (o_sideGoals out) = map goal_id (sideGoals parsed)
       \<and> (\<forall>g \<in> set (o_goals out). carried_over (stored_goals ex) (g_id g) (comments g))
       \<and> (\<forall>g \<in> set (o_sideGoals out).
            carried_over (stored_side_goals ex) (g_id g) (comments g))
       \<and> o_achievements out = (case ex of None \<Rightarrow> [] | Some e \<Rightarrow> str_or (e_achievements e))
       \<and> o_nextSprintPlans out
           = (case ex of None \<Rightarrow> [] | Some e \<Rightarrow> str_or (e_nextSprintPlans e))
       \<and> o_closedAt out = (case ex of None \<Rightarrow> None | Some e \<Rightarrow> e_closedAt e)"
proof -
  have ids: "map g_id (o_goals out) = map goal_id (goals parsed)"
    "map g_id (o_sideGoals out) = map goal_id (sideGoals parsed)"
    unfolding out_def parsed_def build_sprint_data_fields
    by (simp_all add: comp_def build_goal_id build_side_goal_id)
  have g: "\<forall>g \<in> set (o_goals out). carried_over (stored_goals ex) (g_id g) (comments g)"
    unfolding out_def build_sprint_data_fields
    using build_goal_comments [of ex U tasks] by (simp add: image_iff)
  have sg: "\<forall>g \<in> set (o_sideGoals out).
              carried_over (stored_side_goals ex) (g_id g) (comments g)"
    unfolding out_def build_sprint_data_fields
    using build_side_goal_comments [of ex U tasks] by (simp add: image_iff)
  have fields: "o_achievements out = (case ex of None \<Rightarrow> [] | Some e \<Rightarrow> str_or (e_achievements e))"
    "o_nextSprintPlans out = (case ex of None \<Rightarrow> [] | Some e \<Rightarrow> str_or (e_nextSprintPlans e))"
    "o_closedAt out = (case ex of None \<Rightarrow> None | Some e \<Rightarrow> e_closedAt e)"
    unfolding out_def build_sprint_data_fields existing_get_fields
    by (simp_all add: str_or_def split: option.splits)
  from ids g sg fields show ?thesis by simp
qed


theorem build_sprint_data_preserves_witness:
  "map g_id (o_goals (build_sprint_data py example_environ example_sprint []
       (Some example_existing) (ustr ''cel'') (ustr ''extra''))) = [1]
   \<and> map comments (o_goals (build_sprint_data py example_environ example_sprint []
       (Some example_existing) (ustr ''cel'') (ustr ''extra''))) = [[42]]
   \<and> o_achievements (build_sprint_data py example_environ example_sprint []
       (Some example_existing) (ustr ''cel'') (ustr ''extra'')) = ustr ''won''
   \<and> o_closedAt (build_sprint_data py example_environ example_sprint []
       (Some example_existing) (ustr ''cel'') (ustr ''extra'')) = None"
proof -
  have p: "map goal_id (goals (parse_sprint_description py (str_or (rs_goal example_sprint))
             (ustr ''cel'') (ustr ''extra''))) = [1]"
    by code_simp
  have 1: "map g_id (o_goals (build_sprint_data py example_environ example_sprint []
       (Some example_existing) (ustr ''cel'') (ustr ''extra''))) = [1]"
    using build_sprint_data_preserves [of py example_environ example_sprint "[]"
        "Some example_existing" "ustr ''cel''" "ustr ''extra''"]
    by (simp only: p)
  have 2: "map comments (o_goals (build_sprint_data py example_environ example_sprint []
       (Some example_existing) (ustr ''cel'') (ustr ''extra''))) = [[42]]"
    by code_simp
  have 3: "o_achievements (build_sprint_data py example_environ example_sprint []
       (Some example_existing) (ustr ''cel'') (ustr ''extra'')) = ustr ''won''"
    by (simp add: build_sprint_data_fields existing_get_fields example_existing_def str_or_def)
  have 4: "o_closedAt (build_sprint_data py example_environ example_sprint []
       (Some example_existing) (ustr ''cel'') (ustr ''extra'')) = None"
    by (simp add: build_sprint_data_fields existing_get_fields example_existing_def)
  from 1 2 3 4 show ?thesis by simp
qed

section \<open>The freeze gate\<close>

lemma closed_is_closed_locally:
  "e_status e = Some (ustr ''closed'') \<Longrightarrow> is_closed_locally (Some e)"
  by (simp add: is_closed_locally_def existing_truthy_def)

lemma open_sprint_is_synced:
  assumes "select_sprint W = Inr sprint"
    and "stored_file W (rs_id sprint) = Missing"
  shows "\<exists>d a. main_local U W = (Returned, [Build, WriteSprint (rs_id sprint) d,
                                            WriteCurrent (rs_id sprint) a])"
  using assms
  by (simp add: main_local_def is_closed_locally_def Let_def build_sprint_data_def)

text \<open>
  C2. When the record stored for the sprint to synchronise exists and has status
  closed, the run ends early with exit status 0 and without any event:
  \<open>build_sprint_data\<close> is not called and nothing is written, neither the sprint's file nor
  current-sprint.json. This holds for \<open>sync_jira.py\<close> and, once the data repository is
  reachable, for \<open>sync_jira_to_repo.py\<close>; an unreachable repository ends that run with
  status 1, also without any event.
\<close>

theorem closed_sprint_is_frozen:
  assumes "select_sprint W = Inr sprint"
    and "stored_file W (rs_id sprint) = Loaded e"
    and "e_status e = Some (ustr ''closed'')"
  shows "main_local U W = (Exit 0, [])
       \<and> snd (main_repo U W) = []
       \<and> (if repo_token W \<noteq> [] \<and> verify_connection W
          then main_repo U W = (Exit 0, []) else main_repo U W = (Exit 1, []))"
  using assms closed_is_closed_locally [OF assms(3)]
  by (simp add: main_local_def main_repo_def Let_def)

theorem closed_sprint_is_frozen_witness:
  "main_local py example_world = (Exit 0, []) \<and> main_repo py example_world = (Exit 0, [])"
proof -
  have s: "select_sprint example_world = Inr example_sprint"
    by (simp add: select_sprint_def example_world_def)
  have f: "stored_file example_world (rs_id example_sprint) = Loaded example_closed"
    by (simp add: example_world_def)
  have c: "e_status example_closed = Some (ustr ''closed'')"
    by (simp add: example_closed_def)
  have r: "repo_token example_world \<noteq> [] \<and> verify_connection example_world"
    by (simp add: example_world_def ustr_def)
  from closed_sprint_is_frozen [OF s f c, of py] r show ?thesis
    by simp
qed

section \<open>Properties of the label matching\<close>

lemma find_SomeD: "find P xs = Some x \<Longrightarrow> x \<in> set xs \<and> P x"
  by (induction xs) (auto split: if_splits)

lemma match_labels_None:
  assumes "set (set_iter U tags) = set tags"
  shows "(match_labels U tags ls = None) = (\<not> list_ex (label_matches U tags) ls)"
proof (induction ls)
  case Nil
  show ?case by simp
next
  case (Cons l ls)
  show ?case
  proof (cases "str_lower U l \<in> set tags")
    case True
    then show ?thesis by (simp add: label_matches_def)
  next
    case False
    show ?thesis
    proof (cases "find (\<lambda>t. normalize_label U (str_lower U l) = normalize_label U t)
                       (set_iter U tags)")
      case None
      then have "\<not> label_matches U tags l"
        using False assms by (auto simp: label_matches_def find_None_iff list_ex_iff)
      with None False Cons.IH show ?thesis by (simp add: Let_def)
    next
      case (Some t)
      from find_SomeD [OF Some] assms have "label_matches U tags l"
        by (auto simp: label_matches_def list_ex_iff)
      with Some False show ?thesis by (simp add: Let_def)
    qed
  qed
qed

lemma match_labels_Some:
  assumes "set (set_iter U tags) = set tags"
  shows "match_labels U tags ls = Some r \<Longrightarrow> first_match U tags ls r"
proof (induction ls)
  case Nil
  then show ?case by simp
next
  case (Cons l ls)
  show ?case
  proof (cases "str_lower U l \<in> set tags")
    case True
    with Cons.prems have r: "r = str_lower U l" by simp
    have "l # ls = [] @ l # ls \<and> \<not> list_ex (label_matches U tags) []
          \<and> label_matches U tags l
          \<and> (if str_lower U l \<in> set tags then r = str_lower U l
             else normalize_label U r = normalize_label U (str_lower U l))"
      using True r by (simp add: label_matches_def)
    then show ?thesis unfolding first_match_def using True r by blast
  next
    case False
    show ?thesis
    proof (cases "find (\<lambda>t. normalize_label U (str_lower U l) = normalize_label U t)
                       (set_iter U tags)")
      case (Some t)
      with Cons.prems False have r: "r = t" by (simp add: Let_def)
      from find_SomeD [OF Some] assms
      have t: "t \<in> set tags" "normalize_label U (str_lower U l) = normalize_label U t"
        by auto
      then have m: "label_matches U tags l"
        by (auto simp: label_matches_def list_ex_iff)
      have "l # ls = [] @ l # ls \<and> \<not> list_ex (label_matches U tags) []
          \<and> label_matches U tags l
          \<and> (if str_lower U l \<in> set tags then r = str_lower U l
             else normalize_label U r = normalize_label U (str_lower U l))"
        using False r t m by simp
      then show ?thesis unfolding first_match_def using t(1) r by blast
    next
      case None
      then have nm: "\<not> label_matches U tags l"
        using False assms by (auto simp: label_matches_def find_None_iff list_ex_iff)
      from None False Cons.prems have "match_labels U tags ls = Some r"
        by (simp add: Let_def)
      from Cons.IH [OF this] obtain before label after where
        f: "r \<in> set tags" "ls = before @ label # after"
           "\<not> list_ex (label_matches U tags) before" "label_matches U tags label"
           "if str_lower U label \<in> set tags then r = str_lower U label
            else normalize_label U r = normalize_label U (str_lower U label)"
        unfolding first_match_def by blast
      have "l # ls = (l # before) @ label # after
            \<and> \<not> list_ex (label_matches U tags) (l # before)
            \<and> label_matches U tags label
            \<and> (if str_lower U label \<in> set tags then r = str_lower U label
               else normalize_label U r = normalize_label U (str_lower U label))"
        using f nm by simp
      then show ?thesis unfolding first_match_def using f(1) by blast
    qed
  qed
qed

lemma example_tag_by_separator:
  "map_task_to_goal py [ustr ''cel-1''] [example_goal] = Some (ustr ''cel1'')"
  by code_simp

lemma example_tag_no_match:
  "map_task_to_goal py [ustr ''other''] [example_goal] = None"
  by code_simp

text \<open>
  C8. For every list of task labels and every set of candidate tags (the lowercased
  tags of the goals, visited in any order that enumerates the set), the matching
  returns null exactly when no label matches; otherwise the value returned is one of
  the candidate tags and answers the first label, in the task's order, that matches:
  the lowercased label when it is itself a candidate, otherwise a candidate equal to
  it after deleting hyphens, underscores and whitespace from both.
  \<open>map_task_to_side_goal\<close> is the same function. With the tag cel1, the label cel-1
  gives cel1 and the label other gives null.
\<close>

theorem map_task_to_goal_first_match:
  assumes "set (set_iter U (lowered_tags U gs)) = set (lowered_tags U gs)"
  shows "(map_task_to_goal U task_labels gs = None)
           = (\<not> list_ex (label_matches U (lowered_tags U gs)) task_labels)
       \<and> (\<forall>r. map_task_to_goal U task_labels gs = Some r
                \<longrightarrow> first_match U (lowered_tags U gs) task_labels r)
       \<and> map_task_to_side_goal U task_labels gs = map_task_to_goal U task_labels gs
       \<and> map_task_to_goal py [ustr ''cel-1''] [example_goal] = Some (ustr ''cel1'')
       \<and> map_task_to_goal py [ustr ''other''] [example_goal] = None"
  using match_labels_None [OF assms, of task_labels] match_labels_Some [OF assms, of task_labels]
    example_tag_by_separator example_tag_no_match
  by (simp add: map_task_to_goal_def map_task_to_side_goal_def lowered_tags_def)

theorem map_task_to_goal_first_match_witness:
  "set (set_iter py (lowered_tags py [example_goal])) = set (lowered_tags py [example_goal])
   \<and> map_task_to_goal py [ustr ''x'', ustr ''CEL_1'', ustr ''cel1''] [example_goal]
       = Some (ustr ''cel1'')
   \<and> first_match py (lowered_tags py [example_goal])
       [ustr ''x'', ustr ''CEL_1'', ustr ''cel1''] (ustr ''cel1'')"
proof -
  have i: "set (set_iter py (lowered_tags py [example_goal]))
           = set (lowered_tags py [example_goal])"
    by (simp add: py_def)
  have e: "map_task_to_goal py [ustr ''x'', ustr ''CEL_1'', ustr ''cel1''] [example_goal]
             = Some (ustr ''cel1'')"
    by code_simp
  from map_task_to_goal_first_match [OF i, of "[ustr ''x'', ustr ''CEL_1'', ustr ''cel1'']"] e
  have "first_match py (lowered_tags py [example_goal])
          [ustr ''x'', ustr ''CEL_1'', ustr ''cel1''] (ustr ''cel1'')"
    by blast
  with i e show ?thesis by blast
qed

section \<open>Properties of parse_sprint_description\<close>

subsection \<open>What one line can do\<close>

lemma process_line_action:
  "process_line U h gp sp st l = apply_action gp sp st (line_action U h (current_section st) l)"
  unfolding process_line_def line_action_def apply_action_def Let_def
  by (simp split: option.splits section_name.splits prod.splits)

lemma header_phrase_action:
  assumes "holds_header_phrase U l"
  shows "line_action U h cur l = Skip \<or> (\<exists>s. line_action U h cur l = Header s)"
proof -
  from assms have
    "list_ex (\<lambda>k. str_in k (str_lower U (strip U l))) goal_keywords
     \<or> list_ex (\<lambda>k. str_in k (str_lower U (strip U l))) side_goal_keywords"
    by (auto simp: holds_header_phrase_def list_ex_iff)
  then show ?thesis
    unfolding line_action_def Let_def by auto
qed

lemma same_output_refl: "same_output st st"
  by (simp add: same_output_def)

lemma same_output_header: "same_output (st\<lparr> current_section := s \<rparr>) st"
  by (simp add: same_output_def)

lemma same_output_trans: "same_output a b \<Longrightarrow> same_output b c \<Longrightarrow> same_output a c"
  by (simp add: same_output_def)

lemma same_output_sym: "same_output a b \<Longrightarrow> same_output b a"
  by (simp add: same_output_def)

lemma same_output_add_goal:
  "same_output st st' \<Longrightarrow> same_output (add_goal gp cl ti st) (add_goal gp cl ti st')"
  by (simp add: same_output_def add_goal_def Let_def)

lemma same_output_add_side_goal:
  "same_output st st' \<Longrightarrow> same_output (add_side_goal sp cl ti st) (add_side_goal sp cl ti st')"
  by (simp add: same_output_def add_side_goal_def Let_def)

lemma same_output_apply:
  "same_output st st' \<Longrightarrow> same_output (apply_action gp sp st a) (apply_action gp sp st' a)"
  by (cases a)
     (auto simp: apply_action_def same_output_def add_goal_def add_side_goal_def Let_def
           split: section_name.splits)

lemma marker_mode_action: "line_action U False cur l = line_action U False cur' l"
  by (simp add: line_action_def Let_def)

lemma marker_mode_step:
  assumes "same_output st st'"
  shows "same_output (process_line U False gp sp st l) (process_line U False gp sp st' l)"
proof -
  have "line_action U False (current_section st) l = line_action U False (current_section st') l"
    by (rule marker_mode_action)
  with same_output_apply [OF assms, of gp sp "line_action U False (current_section st') l"]
  show ?thesis by (simp add: process_line_action)
qed

lemma marker_mode_fold:
  assumes "same_output st st'"
  shows "same_output (foldl (process_line U False gp sp) st ls)
                     (foldl (process_line U False gp sp) st' ls)"
  using assms
proof (induction ls arbitrary: st st')
  case Nil
  then show ?case by simp
next
  case (Cons l ls)
  from Cons.IH [OF marker_mode_step [OF Cons.prems]] show ?case by simp
qed

lemma header_line_step:
  assumes "holds_header_phrase U l"
  shows "same_output (process_line U h gp sp st l) st"
  using header_phrase_action [OF assms, of h "current_section st"]
  by (auto simp: process_line_action apply_action_def same_output_def)

lemma header_line_removable:
  assumes "holds_header_phrase U l"
  shows "same_output (foldl (process_line U False gp sp) st (before @ l # after))
                     (foldl (process_line U False gp sp) st (before @ after))"
proof -
  have "same_output (process_line U False gp sp (foldl (process_line U False gp sp) st before) l)
                    (foldl (process_line U False gp sp) st before)"
    by (rule header_line_step [OF assms])
  from marker_mode_fold [OF this] show ?thesis by simp
qed

lemma example_numbered_header:
  "parse_sprint_description py (ustr ''1. poboczny cel'') (ustr ''cel'') (ustr ''extra'')
     = \<lparr> goals = [], sideGoals = [] \<rparr>"
  by code_simp

lemma example_numbered_header_mode:
  "\<not> has_explicit_headers py (description_lines py (ustr ''1. poboczny cel''))
   \<and> is_numbered_item py (ustr ''1. poboczny cel'')"
  by code_simp

text \<open>
  C10. A line that holds, case-insensitively, one of the six phrases (the three
  spellings of the goals header, the two of the side-goals header, and the stem
  poboczn) is consumed as a header by the second loop, in either mode: after the line
  the declarations of both sections and both counters are what they were before it,
  whatever list marker the line begins with. In marker mode the whole parse is the
  same as if the line were not there. The description \<open>1. poboczny cel\<close> has no header
  for the first pass and a numbered line, and yields no declaration.
\<close>

theorem header_phrase_line_consumed:
  assumes "holds_header_phrase U line"
  shows "result (process_line U h gp sp st line) = result st
       \<and> goal_counter (process_line U h gp sp st line) = goal_counter st
       \<and> side_goal_counter (process_line U h gp sp st line) = side_goal_counter st
       \<and> result (foldl (process_line U False gp sp) initial_state (before @ line # after))
           = result (foldl (process_line U False gp sp) initial_state (before @ after))
       \<and> \<not> has_explicit_headers py (description_lines py (ustr ''1. poboczny cel''))
       \<and> is_numbered_item py (ustr ''1. poboczny cel'')
       \<and> parse_sprint_description py (ustr ''1. poboczny cel'') (ustr ''cel'') (ustr ''extra'')
           = \<lparr> goals = [], sideGoals = [] \<rparr>"
  using header_line_step [OF assms, of h gp sp st]
    header_line_removable [OF assms, of gp sp initial_state before after]
    example_numbered_header example_numbered_header_mode
  by (simp add: same_output_def)

theorem header_phrase_line_consumed_witness:
  "holds_header_phrase py (ustr ''  2) Side Goals first'')
   \<and> result (process_line py False (ustr ''cel'') (ustr ''extra'') initial_state
               (ustr ''  2) Side Goals first'')) = result initial_state
   \<and> goal_counter (process_line py False (ustr ''cel'') (ustr ''extra'') initial_state
               (ustr ''  2) Side Goals first'')) = 0"
proof -
  have h: "holds_header_phrase py (ustr ''  2) Side Goals first'')"
    by code_simp
  from header_phrase_line_consumed [OF h, of False "ustr ''cel''" "ustr ''extra''" initial_state]
  have "result (process_line py False (ustr ''cel'') (ustr ''extra'') initial_state
               (ustr ''  2) Side Goals first'')) = result initial_state
   \<and> goal_counter (process_line py False (ustr ''cel'') (ustr ''extra'') initial_state
               (ustr ''  2) Side Goals first'')) = goal_counter initial_state"
    by blast
  with h show ?thesis by (simp add: initial_state_def)
qed

subsection \<open>Numbering\<close>

lemma undigits_snoc: "undigits (s @ [c]) = 10 * undigits s + (c - 48)"
  by (simp add: undigits_def)

lemma undigits_digits: "undigits (digits n) = n"
proof (induction n rule: digits.induct)
  case (1 n)
  show ?case
  proof (cases "n < 10")
    case True
    then show ?thesis by (subst digits.simps) (simp add: undigits_def)
  next
    case False
    with "1" have "undigits (digits (n div 10)) = n div 10" by simp
    with False show ?thesis by (subst digits.simps) (simp add: undigits_snoc)
  qed
qed

lemma digits_inj:
  assumes "digits a = digits b"
  shows "a = b"
proof -
  have "undigits (digits a) = undigits (digits b)" by (simp only: assms)
  then show ?thesis by (simp only: undigits_digits)
qed

lemma str_int_inj:
  assumes "0 \<le> i" "0 \<le> j" "str_int i = str_int j"
  shows "i = j"
proof -
  from assms have "digits (nat i) = digits (nat j)" by (simp add: str_int_def)
  then have "nat i = nat j" by (rule digits_inj)
  with assms(1,2) show ?thesis by simp
qed

lemma numbered_tags:
  assumes "numbered_from_one prefix ds"
  shows "map tag ds = map (\<lambda>i. prefix @ str_int i) [1..int (length ds)]"
proof -
  from assms have "map tag ds = map (\<lambda>d. prefix @ str_int (goal_id d)) ds"
    by (simp add: numbered_from_one_def list_all_iff)
  also have "\<dots> = map (\<lambda>i. prefix @ str_int i) (map goal_id ds)"
    by (simp add: comp_def)
  also from assms have "map goal_id ds = [1..int (length ds)]"
    by (simp add: numbered_from_one_def)
  finally show ?thesis .
qed

lemma numbered_distinct:
  assumes "numbered_from_one prefix ds"
  shows "distinct (map tag ds)"
proof -
  have "inj_on (\<lambda>i. prefix @ str_int i) (set [1..int (length ds)])"
  proof (rule inj_onI)
    fix i j
    assume "i \<in> set [1..int (length ds)]" "j \<in> set [1..int (length ds)]"
      and e: "prefix @ str_int i = prefix @ str_int j"
    then have "0 \<le> i" "0 \<le> j" by simp_all
    moreover from e have "str_int i = str_int j" by simp
    ultimately show "i = j" by (rule str_int_inj)
  qed
  then show ?thesis
    unfolding numbered_tags [OF assms] by (simp add: distinct_map)
qed

lemma numbered_Nil: "numbered_from_one prefix []"
  by (simp add: numbered_from_one_def)

lemma numbered_snoc:
  assumes "numbered_from_one prefix ds"
  shows "numbered_from_one prefix
           (ds @ [\<lparr> goal_id = int (length ds) + 1, title = ti, client = cl,
                    tag = prefix @ str_int (int (length ds) + 1) \<rparr>])"
proof -
  have "[1..int (length ds) + 1] = [1..int (length ds)] @ [int (length ds) + 1]"
    by (simp add: upto_rec2)
  with assms show ?thesis
    by (simp add: numbered_from_one_def add.commute)
qed

lemma well_numbered_initial: "well_numbered gp sp initial_state"
  by (simp add: well_numbered_def initial_state_def numbered_Nil)

lemma well_numbered_add_goal:
  assumes "well_numbered gp sp st"
  shows "well_numbered gp sp (add_goal gp cl ti st)"
  using assms numbered_snoc [of gp "goals (result st)" ti cl]
  by (simp add: well_numbered_def add_goal_def Let_def)

lemma well_numbered_add_side_goal:
  assumes "well_numbered gp sp st"
  shows "well_numbered gp sp (add_side_goal sp cl ti st)"
  using assms numbered_snoc [of sp "sideGoals (result st)" ti cl]
  by (simp add: well_numbered_def add_side_goal_def Let_def)

lemma well_numbered_apply:
  assumes "well_numbered gp sp st"
  shows "well_numbered gp sp (apply_action gp sp st a)"
proof (cases a)
  case Skip
  with assms show ?thesis by (simp add: apply_action_def)
next
  case (Header s)
  with assms show ?thesis by (simp add: apply_action_def well_numbered_def)
next
  case (Declare sec cl ti)
  with well_numbered_add_goal [OF assms] well_numbered_add_side_goal [OF assms]
  show ?thesis by (cases sec) (simp_all add: apply_action_def)
qed

lemma well_numbered_fold:
  "well_numbered gp sp st \<Longrightarrow> well_numbered gp sp (foldl (process_line U h gp sp) st ls)"
proof (induction ls arbitrary: st)
  case Nil
  then show ?case by simp
next
  case (Cons l ls)
  from well_numbered_apply [OF Cons.prems] have "well_numbered gp sp (process_line U h gp sp st l)"
    by (simp add: process_line_action)
  from Cons.IH [OF this] show ?case by simp
qed

lemma parse_well_numbered:
  "numbered_from_one gp (goals (parse_sprint_description U d gp sp))
   \<and> numbered_from_one sp (sideGoals (parse_sprint_description U d gp sp))"
proof (cases "d = []")
  case True
  then show ?thesis by (simp add: parse_sprint_description_def numbered_Nil)
next
  case False
  with well_numbered_fold [OF well_numbered_initial, of gp sp U
      "has_explicit_headers U (description_lines U d)" "description_lines U d"]
  show ?thesis by (simp add: parse_sprint_description_def Let_def well_numbered_def)
qed

text \<open>
  C9. For every description and every pair of prefixes, in the result of
  \<open>parse_sprint_description\<close> the declarations of each section carry the ids 1, 2, ..., n in
  list order, each tag is the section's prefix followed by the decimal numeral of the
  id, the two sections are numbered independently (each from 1), and the tags of a
  section are pairwise distinct.
\<close>

theorem parse_ids_sequential:
  "numbered_from_one gp (goals (parse_sprint_description U d gp sp))
   \<and> numbered_from_one sp (sideGoals (parse_sprint_description U d gp sp))
   \<and> distinct (map tag (goals (parse_sprint_description U d gp sp)))
   \<and> distinct (map tag (sideGoals (parse_sprint_description U d gp sp)))"
  using parse_well_numbered [of gp U d sp] numbered_distinct by blast

theorem parse_ids_sequential_witness:
  "map goal_id (goals (parse_sprint_description py example_description (ustr ''cel'')
       (ustr ''extra''))) = [1, 2]
   \<and> map tag (goals (parse_sprint_description py example_description (ustr ''cel'')
       (ustr ''extra''))) = [ustr ''cel1'', ustr ''cel2'']
   \<and> map tag (sideGoals (parse_sprint_description py example_description (ustr ''cel'')
       (ustr ''extra''))) = [ustr ''extra1'']
   \<and> distinct (map tag (goals (parse_sprint_description py example_description (ustr ''cel'')
       (ustr ''extra''))))"
proof -
  have e: "map goal_id (goals (parse_sprint_description py example_description (ustr ''cel'')
       (ustr ''extra''))) = [1, 2]
   \<and> map tag (goals (parse_sprint_description py example_description (ustr ''cel'')
       (ustr ''extra''))) = [ustr ''cel1'', ustr ''cel2'']
   \<and> map tag (sideGoals (parse_sprint_description py example_description (ustr ''cel'')
       (ustr ''extra''))) = [ustr ''extra1'']"
    by code_simp
  from parse_ids_sequential [of "ustr ''cel''" py example_description "ustr ''extra''"]
  have "distinct (map tag (goals (parse_sprint_description py example_description
          (ustr ''cel'') (ustr ''extra''))))"
    by blast
  with e show ?thesis by blast
qed

subsection \<open>Marker mode\<close>

lemma strip_last_not_space:
  assumes "strip U s \<noteq> []"
  shows "\<not> isspace U (last (strip U s))"
proof -
  let ?r = "dropWhile (isspace U) (rev (lstrip U s))"
  from assms have ne: "?r \<noteq> []" by (simp add: strip_def rstrip_def)
  then have "\<not> isspace U (hd ?r)" by (rule hd_dropWhile)
  moreover have "last (strip U s) = hd ?r"
    using ne by (simp add: strip_def rstrip_def last_rev)
  ultimately show ?thesis by simp
qed

lemma numbered_at_first: "numbered_at U s \<Longrightarrow> s \<noteq> [] \<and> isdecimal U (hd s)"
  by (cases s) auto

lemma numbered_not_header:
  assumes "punctuation_plain U" "is_numbered_item U line"
  shows "\<not> is_section_header line"
proof (cases line)
  case Nil
  with assms(2) show ?thesis by (simp add: is_numbered_item_def)
next
  case (Cons c cs)
  with assms(2) have "isdecimal U c" by (simp add: is_numbered_item_def)
  with assms(1) have "c \<noteq> 35 \<and> c \<noteq> 42" by (auto simp: punctuation_plain_def)
  with Cons show ?thesis by (simp add: is_section_header_def ustr_def)
qed

lemma dash_not_header:
  assumes "punctuation_plain U" "is_dash_item U line"
  shows "\<not> is_section_header line"
proof -
  from assms(2) obtain c d ds where l: "line = c # d # ds" "c = 45 \<or> c = 42" "isspace U d"
    by (auto simp: is_dash_item_def split: list.splits)
  from l(3) assms(1) have "d \<noteq> 42" by (auto simp: punctuation_plain_def)
  with l(1,2) show ?thesis by (auto simp: is_section_header_def ustr_def)
qed

lemma dash_not_numbered:
  assumes "punctuation_plain U" "is_dash_item U line"
  shows "\<not> is_numbered_item U line" "number_marker U line = None"
proof -
  from assms(2) obtain c d ds where l: "line = c # d # ds" "c = 45 \<or> c = 42"
    by (auto simp: is_dash_item_def split: list.splits)
  with assms(1) have "\<not> isdecimal U c" by (auto simp: punctuation_plain_def)
  with l(1) show "\<not> is_numbered_item U line" "number_marker U line = None"
    by (simp_all add: is_numbered_item_def)
qed

lemma dash_has_text:
  assumes "punctuation_plain U" "is_dash_item U (strip U l)"
  shows "remove_marker U (strip U l) \<noteq> []"
proof -
  from assms(2) obtain c d ds where l: "strip U l = c # d # ds" "c = 45 \<or> c = 42" "isspace U d"
    by (auto simp: is_dash_item_def split: list.splits)
  then have "strip U l \<noteq> []" by simp
  from strip_last_not_space [OF this] l(1) have "\<not> isspace U (last (d # ds))" by simp
  moreover have "last (d # ds) \<in> set (d # ds)" by (rule last_in_set) simp
  ultimately have "dropWhile (isspace U) (d # ds) \<noteq> []"
    unfolding dropWhile_eq_Nil_conv by blast
  moreover have "remove_marker U (strip U l) = dropWhile (isspace U) (d # ds)"
    using dash_not_numbered(2) [OF assms] l
    by (simp add: remove_marker_def dash_marker_def)
  ultimately show ?thesis by simp
qed

lemma no_phrase_no_keyword:
  assumes "\<not> holds_header_phrase U l"
  shows "\<not> list_ex (\<lambda>k. str_in k (str_lower U (strip U l))) goal_keywords"
    and "\<not> list_ex (\<lambda>k. str_in k (str_lower U (strip U l))) side_goal_keywords"
  using assms by (auto simp: holds_header_phrase_def list_ex_iff)

lemma phrase_iff_keyword:
  "holds_header_phrase U l =
     (list_ex (\<lambda>k. str_in k (str_lower U (strip U l))) goal_keywords
      \<or> list_ex (\<lambda>k. str_in k (str_lower U (strip U l))) side_goal_keywords)"
  by (auto simp: holds_header_phrase_def list_ex_iff)

lemma goal_line_action:
  assumes "punctuation_plain U" "goal_line U l"
  shows "line_action U False cur l = Declare Goals
           (fst (parse_client_from_text U (remove_marker U (strip U l))))
           (snd (parse_client_from_text U (remove_marker U (strip U l))))"
proof -
  from assms(2) have n: "is_numbered_item U (strip U l)" and p: "\<not> holds_header_phrase U l"
    and t: "remove_marker U (strip U l) \<noteq> []"
    by (simp_all add: goal_line_def)
  from n have ne: "strip U l \<noteq> []" by (auto simp: is_numbered_item_def)
  from ne n t no_phrase_no_keyword [OF p] numbered_not_header [OF assms(1) n]
  show ?thesis by (simp add: line_action_def Let_def)
qed

lemma side_goal_line_action:
  assumes "punctuation_plain U" "side_goal_line U l"
  shows "line_action U False cur l = Declare SideGoals
           (fst (parse_client_from_text U (remove_marker U (strip U l))))
           (snd (parse_client_from_text U (remove_marker U (strip U l))))"
proof -
  from assms(2) have d: "is_dash_item U (strip U l)" and p: "\<not> holds_header_phrase U l"
    by (simp_all add: side_goal_line_def)
  from d have ne: "strip U l \<noteq> []" by (auto simp: is_dash_item_def)
  from ne d no_phrase_no_keyword [OF p] dash_not_header [OF assms(1) d]
    dash_not_numbered(1) [OF assms(1) d] dash_has_text [OF assms(1) d]
  show ?thesis by (simp add: line_action_def Let_def)
qed

lemma other_line_action:
  assumes "\<not> goal_line U l" "\<not> side_goal_line U l"
  shows "line_action U False cur l = Skip \<or> (\<exists>s. line_action U False cur l = Header s)"
proof (cases "holds_header_phrase U l")
  case True
  then show ?thesis by (rule header_phrase_action)
next
  case False
  with assms have "\<not> is_dash_item U (strip U l)"
    and "is_numbered_item U (strip U l) \<longrightarrow> remove_marker U (strip U l) = []"
    by (auto simp: goal_line_def side_goal_line_def)
  with no_phrase_no_keyword [OF False] show ?thesis
    by (simp add: line_action_def Let_def)
qed

lemma goal_side_exclusive:
  assumes "punctuation_plain U" "side_goal_line U l"
  shows "\<not> goal_line U l"
  using dash_not_numbered(1) [OF assms(1)] assms(2)
  by (auto simp: goal_line_def side_goal_line_def)

lemma declare_items_snoc:
  "declare_items U prefix (ls @ [l])
     = declare_items U prefix ls @ [item_decl U prefix (Suc (length ls), l)]"
  by (simp add: declare_items_def enumerate_append_eq)

lemma length_declare_items: "length (declare_items U prefix ls) = length ls"
  by (simp add: declare_items_def)

lemma add_goal_fields:
  "goals (result (add_goal gp cl ti st))
     = goals (result st) @ [\<lparr> goal_id = goal_counter st + 1, title = ti, client = cl,
                                tag = gp @ str_int (goal_counter st + 1) \<rparr>]"
  "sideGoals (result (add_goal gp cl ti st)) = sideGoals (result st)"
  "goal_counter (add_goal gp cl ti st) = goal_counter st + 1"
  "side_goal_counter (add_goal gp cl ti st) = side_goal_counter st"
  "current_section (add_goal gp cl ti st) = current_section st"
  by (simp_all add: add_goal_def Let_def)

lemma add_side_goal_fields:
  "sideGoals (result (add_side_goal sp cl ti st))
     = sideGoals (result st) @ [\<lparr> goal_id = side_goal_counter st + 1, title = ti, client = cl,
                                    tag = sp @ str_int (side_goal_counter st + 1) \<rparr>]"
  "goals (result (add_side_goal sp cl ti st)) = goals (result st)"
  "side_goal_counter (add_side_goal sp cl ti st) = side_goal_counter st + 1"
  "goal_counter (add_side_goal sp cl ti st) = goal_counter st"
  "current_section (add_side_goal sp cl ti st) = current_section st"
  by (simp_all add: add_side_goal_def Let_def)

lemma marker_mode_fold_items:
  assumes pp: "punctuation_plain U"
  shows "goals (result (foldl (process_line U False gp sp) initial_state ls))
           = declare_items U gp (filter (goal_line U) ls)
       \<and> sideGoals (result (foldl (process_line U False gp sp) initial_state ls))
           = declare_items U sp (filter (side_goal_line U) ls)
       \<and> goal_counter (foldl (process_line U False gp sp) initial_state ls)
           = int (length (filter (goal_line U) ls))
       \<and> side_goal_counter (foldl (process_line U False gp sp) initial_state ls)
           = int (length (filter (side_goal_line U) ls))"
proof (induction ls rule: rev_induct)
  case Nil
  show ?case by (simp add: initial_state_def declare_items_def)
next
  case (snoc l ls)
  let ?st = "foldl (process_line U False gp sp) initial_state ls"
  have step: "foldl (process_line U False gp sp) initial_state (ls @ [l])
        = apply_action gp sp ?st (line_action U False (current_section ?st) l)"
    by (simp add: process_line_action)
  show ?case
  proof (cases "goal_line U l")
    case True
    then have ns: "\<not> side_goal_line U l" using goal_side_exclusive [OF pp] by blast
    from snoc.IH True ns show ?thesis
      unfolding step goal_line_action [OF pp True]
      by (simp add: apply_action_def add_goal_fields declare_items_snoc item_decl_def add.commute)
  next
    case False
    show ?thesis
    proof (cases "side_goal_line U l")
      case True
      from snoc.IH True False show ?thesis
        unfolding step side_goal_line_action [OF pp True]
        by (simp add: apply_action_def add_side_goal_fields declare_items_snoc item_decl_def
              add.commute)
    next
      case ns: False
      from other_line_action [OF False ns, of "current_section ?st"]
      have "same_output (apply_action gp sp ?st (line_action U False (current_section ?st) l)) ?st"
        by (auto simp: apply_action_def same_output_def)
      with snoc.IH False ns show ?thesis
        unfolding step by (simp add: same_output_def)
    qed
  qed
qed


lemma example_bare_marker:
  "\<not> has_explicit_headers py (description_lines py (ustr ''1.''))
   \<and> \<not> holds_header_phrase py (ustr ''1.'')
   \<and> filter (\<lambda>l. is_numbered_item py (strip py l)) (description_lines py (ustr ''1.''))
       = [ustr ''1.'']
   \<and> goals (parse_sprint_description py (ustr ''1.'') (ustr ''cel'') (ustr ''extra'')) = []"
  by code_simp

lemma py_punctuation_plain: "punctuation_plain py"
  by (simp add: punctuation_plain_def py_def digit_cp_def space_cp_def)

text \<open>
  C1 as stated fails: the description \<open>1.\<close> holds no header phrase and its only line
  begins with a digit followed by a dot, yet no goal is declared, because a line with
  nothing after its marker is skipped.
\<close>

theorem bare_marker_counterexample:
  "\<not> has_explicit_headers py (description_lines py (ustr ''1.''))
   \<and> \<not> holds_header_phrase py (ustr ''1.'')
   \<and> filter (\<lambda>l. is_numbered_item py (strip py l)) (description_lines py (ustr ''1.''))
       = [ustr ''1.'']
   \<and> goals (parse_sprint_description py (ustr ''1.'') (ustr ''cel'') (ustr ''extra'')) = []"
  by (rule example_bare_marker)

text \<open>
  C1, amended. For every description in which the first pass finds no header phrase:
  \<open>goals\<close> holds exactly the declarations of the lines that, once stripped, begin with
  digits followed by a dot, a closing parenthesis or whitespace, hold none of the six
  header phrases and have text after the marker; \<open>sideGoals\<close> exactly those of the lines
  that begin with a hyphen or an asterisk followed by whitespace and hold none of the
  six phrases; each in the order of the lines, with ids 1, 2, ... per section and the
  client and title taken from the text after the marker. No other line produces a
  declaration.
\<close>

theorem marker_mode_declarations:
  assumes "punctuation_plain U"
    and "\<not> has_explicit_headers U (description_lines U d)"
  shows "goals (parse_sprint_description U d gp sp)
           = declare_items U gp (filter (goal_line U) (description_lines U d))
       \<and> sideGoals (parse_sprint_description U d gp sp)
           = declare_items U sp (filter (side_goal_line U) (description_lines U d))"
proof (cases "d = []")
  case True
  have "description_lines U [] = [[]]"
    by (simp add: description_lines_def strip_Nil)
  moreover have "\<not> goal_line U []" "\<not> side_goal_line U []"
    by (simp_all add: goal_line_def side_goal_line_def strip_Nil is_numbered_item_def
          is_dash_item_def)
  ultimately show ?thesis using True
    by (simp add: parse_sprint_description_def declare_items_def)
next
  case False
  with assms(2) marker_mode_fold_items [OF assms(1), of gp sp "description_lines U d"]
  show ?thesis by (simp add: parse_sprint_description_def Let_def)
qed

theorem marker_mode_declarations_witness:
  "punctuation_plain py
   \<and> \<not> has_explicit_headers py (description_lines py example_description)
   \<and> filter (goal_line py) (description_lines py example_description)
       = [ustr ''1. [A] ship'', ustr ''2) test [B]'']
   \<and> goals (parse_sprint_description py example_description (ustr ''cel'') (ustr ''extra''))
       = declare_items py (ustr ''cel'') [ustr ''1. [A] ship'', ustr ''2) test [B]'']
   \<and> sideGoals (parse_sprint_description py example_description (ustr ''cel'') (ustr ''extra''))
       = declare_items py (ustr ''extra'') [ustr ''- tidy up'']"
proof -
  have h: "\<not> has_explicit_headers py (description_lines py example_description)"
    by code_simp
  have g: "filter (goal_line py) (description_lines py example_description)
             = [ustr ''1. [A] ship'', ustr ''2) test [B]'']"
    by code_simp
  have s: "filter (side_goal_line py) (description_lines py example_description)
             = [ustr ''- tidy up'']"
    by code_simp
  from marker_mode_declarations [OF py_punctuation_plain h, of "ustr ''cel''" "ustr ''extra''"]
  show ?thesis
    using py_punctuation_plain h g s by simp
qed

subsection \<open>Header mode\<close>

lemma section_after_Nil: "section_after U [] = None"
  by (simp add: section_after_def List.map_filter_simps)

lemma section_after_snoc:
  "section_after U (ls @ [l])
     = (case header_of U l of None \<Rightarrow> section_after U ls | Some h \<Rightarrow> h)"
  by (simp add: section_after_def List.map_filter_simps split: option.splits)

lemma items_under_snoc:
  "items_under U s (ls @ [l])
     = items_under U s ls
       @ (if section_after U ls = Some s \<and> list_item U l then [l] else [])"
proof -
  have "map (\<lambda>i. (ls @ [l]) ! i)
          (filter (\<lambda>i. section_after U (take i (ls @ [l])) = Some s \<and> list_item U ((ls @ [l]) ! i))
                  [0..<length ls])
        = map (\<lambda>i. ls ! i)
          (filter (\<lambda>i. section_after U (take i ls) = Some s \<and> list_item U (ls ! i))
                  [0..<length ls])"
  proof -
    have "filter (\<lambda>i. section_after U (take i (ls @ [l])) = Some s
                       \<and> list_item U ((ls @ [l]) ! i)) [0..<length ls]
          = filter (\<lambda>i. section_after U (take i ls) = Some s \<and> list_item U (ls ! i))
                   [0..<length ls]"
      by (rule filter_cong) (simp_all add: nth_append)
    moreover have "map (\<lambda>i. (ls @ [l]) ! i)
                     (filter (\<lambda>i. section_after U (take i ls) = Some s \<and> list_item U (ls ! i))
                             [0..<length ls])
                   = map (\<lambda>i. ls ! i)
                     (filter (\<lambda>i. section_after U (take i ls) = Some s \<and> list_item U (ls ! i))
                             [0..<length ls])"
      by (rule map_cong) (simp_all add: nth_append)
    ultimately show ?thesis by simp
  qed
  then show ?thesis
    by (simp add: items_under_def)
qed

lemma not_item_Nil: "\<not> is_numbered_item U []" "\<not> is_dash_item U []"
  by (simp_all add: is_numbered_item_def is_dash_item_def)

lemma header_mode_action:
  "line_action U True cur l =
     (case header_of U l of
        Some h \<Rightarrow> Header h
      | None \<Rightarrow>
          if list_item U l
          then (case cur of
                  None \<Rightarrow> Skip
                | Some sec \<Rightarrow>
                    Declare sec (fst (parse_client_from_text U (remove_marker U (strip U l))))
                                (snd (parse_client_from_text U (remove_marker U (strip U l)))))
          else Skip)"
  by (simp add: line_action_def header_of_def list_item_def Let_def not_item_Nil
           split: option.splits)

lemma header_mode_fold_items:
  "current_section (foldl (process_line U True gp sp) initial_state ls) = section_after U ls
   \<and> goals (result (foldl (process_line U True gp sp) initial_state ls))
       = declare_items U gp (items_under U Goals ls)
   \<and> sideGoals (result (foldl (process_line U True gp sp) initial_state ls))
       = declare_items U sp (items_under U SideGoals ls)
   \<and> goal_counter (foldl (process_line U True gp sp) initial_state ls)
       = int (length (items_under U Goals ls))
   \<and> side_goal_counter (foldl (process_line U True gp sp) initial_state ls)
       = int (length (items_under U SideGoals ls))"
proof (induction ls rule: rev_induct)
  case Nil
  show ?case
    by (simp add: initial_state_def declare_items_def items_under_def section_after_Nil)
next
  case (snoc l ls)
  let ?st = "foldl (process_line U True gp sp) initial_state ls"
  have "foldl (process_line U True gp sp) initial_state (ls @ [l])
        = process_line U True gp sp ?st l"
    by simp
  also have "\<dots> = apply_action gp sp ?st (line_action U True (current_section ?st) l)"
    by (rule process_line_action)
  also from snoc.IH have "current_section ?st = section_after U ls"
    by blast
  finally have step: "foldl (process_line U True gp sp) initial_state (ls @ [l])
        = apply_action gp sp ?st (line_action U True (section_after U ls) l)" .
  show ?case
  proof (cases "header_of U l")
    case (Some h)
    then have "\<not> list_item U l" by (simp add: list_item_def)
    with snoc.IH Some show ?thesis
      unfolding step header_mode_action
      by (simp add: apply_action_def items_under_snoc section_after_snoc)
  next
    case None
    show ?thesis
    proof (cases "list_item U l")
      case False
      with snoc.IH None show ?thesis
        unfolding step header_mode_action
        by (simp add: apply_action_def items_under_snoc section_after_snoc)
    next
      case True
      show ?thesis
      proof (cases "section_after U ls")
        case none: None
        with snoc.IH None True show ?thesis
          unfolding step header_mode_action
          by (simp add: apply_action_def items_under_snoc section_after_snoc)
      next
        case (Some sec)
        show ?thesis
        proof (cases sec)
          case Goals
          with snoc.IH None True Some show ?thesis
            unfolding step header_mode_action
            by (simp add: apply_action_def items_under_snoc section_after_snoc
                  add_goal_fields declare_items_snoc item_decl_def add.commute)
        next
          case SideGoals
          with snoc.IH None True Some show ?thesis
            unfolding step header_mode_action
            by (simp add: apply_action_def items_under_snoc section_after_snoc
                  add_side_goal_fields declare_items_snoc item_decl_def add.commute)
        qed
      qed
    qed
  qed
qed

text \<open>
  C7 as stated fails: in the description \<open>Sprint goals\<close>, \<open>1.\<close> a header phrase is recognised
  and the second line begins with a list marker under the goals header, yet it is not
  assigned to any section: a line with nothing after its marker is skipped.
\<close>

theorem bare_marker_under_header_counterexample:
  "has_explicit_headers py (description_lines py (ustr ''Sprint goals'' @ [10] @ ustr ''1.''))
   \<and> section_after py [ustr ''Sprint goals''] = Some Goals
   \<and> is_numbered_item py (strip py (ustr ''1.''))
   \<and> header_of py (ustr ''1.'') = None
   \<and> parse_sprint_description py (ustr ''Sprint goals'' @ [10] @ ustr ''1.'')
        (ustr ''cel'') (ustr ''extra'') = \<lparr> goals = [], sideGoals = [] \<rparr>"
  by code_simp

text \<open>
  C7, amended. For every description in which the first pass finds a header phrase:
  every list item (a line that is not itself a header, begins with a numbered or a
  dash marker, whichever, and has text after the marker) is declared in the section
  named by the header that appeared most recently before it; list items before the
  first header, or whose most recent header is another \<open>##\<close> or \<open>**\<close> header, are
  dropped; a line that holds a header phrase is never a list item. Within a section
  the declarations follow the order of the lines, with ids 1, 2, ....
\<close>

theorem header_mode_declarations:
  assumes "has_explicit_headers U (description_lines U d)"
  shows "goals (parse_sprint_description U d gp sp)
           = declare_items U gp (items_under U Goals (description_lines U d))
       \<and> sideGoals (parse_sprint_description U d gp sp)
           = declare_items U sp (items_under U SideGoals (description_lines U d))
       \<and> (\<forall>l. holds_header_phrase U l \<longrightarrow> \<not> list_item U l)"
proof -
  have no_item: "\<not> list_item U l" if "holds_header_phrase U l" for l
  proof -
    from that have "strip U l \<noteq> [] \<longrightarrow> header_of U l \<noteq> None"
      by (auto simp: phrase_iff_keyword header_of_def)
    then show ?thesis
      by (auto simp: list_item_def not_item_Nil)
  qed
  show ?thesis
  proof (cases "d = []")
    case True
    have "\<not> list_item U []"
      by (simp add: list_item_def strip_Nil not_item_Nil)
    then have "items_under U s [[]] = []" for s
      by (simp add: items_under_def)
    moreover have "description_lines U [] = [[]]"
      by (simp add: description_lines_def strip_Nil)
    ultimately show ?thesis using True no_item
      by (simp add: parse_sprint_description_def declare_items_def)
  next
    case False
    with assms header_mode_fold_items [of U gp sp "description_lines U d"] no_item
    show ?thesis by (simp add: parse_sprint_description_def Let_def)
  qed
qed

theorem header_mode_declarations_witness:
  "has_explicit_headers py (description_lines py example_with_headers)
   \<and> items_under py Goals (description_lines py example_with_headers) = [ustr ''- [A] d'']
   \<and> items_under py SideGoals (description_lines py example_with_headers) = [ustr ''1. b'']
   \<and> goals (parse_sprint_description py example_with_headers (ustr ''cel'') (ustr ''extra''))
       = declare_items py (ustr ''cel'') [ustr ''- [A] d'']
   \<and> sideGoals (parse_sprint_description py example_with_headers (ustr ''cel'') (ustr ''extra''))
       = declare_items py (ustr ''extra'') [ustr ''1. b'']"
proof -
  have h: "has_explicit_headers py (description_lines py example_with_headers)"
    by code_simp
  have g: "items_under py Goals (description_lines py example_with_headers)
             = [ustr ''- [A] d'']"
    by code_simp
  have s: "items_under py SideGoals (description_lines py example_with_headers)
             = [ustr ''1. b'']"
    by code_simp
  from header_mode_declarations [OF h, of "ustr ''cel''" "ustr ''extra''"]
  show ?thesis
    using h g s by simp
qed

section \<open>Properties of parse_client_from_text\<close>

lemma bracket_at_shape:
  assumes "bracket_at s = Some (g, r)"
  shows "s = 91 # g @ 93 # r \<and> g \<noteq> [] \<and> 93 \<notin> set g"
proof (cases s)
  case Nil
  with assms show ?thesis by (simp add: bracket_at_def)
next
  case (Cons c cs)
  let ?d = "dropWhile (\<lambda>x. x \<noteq> 93) cs"
  from assms Cons have c: "c = 91" and g: "g = takeWhile (\<lambda>x. x \<noteq> 93) cs"
    and r: "r = tl ?d" and ne: "g \<noteq> []" "?d \<noteq> []"
    by (auto simp: bracket_at_def Let_def split: if_splits)
  from ne(2) have "\<not> (hd ?d \<noteq> 93)" by (rule hd_dropWhile)
  with ne(2) r have d: "?d = 93 # r" by (cases ?d) auto
  have "cs = takeWhile (\<lambda>x. x \<noteq> 93) cs @ ?d" by simp
  with d g have "cs = g @ 93 # r" by simp
  moreover have "93 \<notin> set g" unfolding g by (auto dest: set_takeWhileD)
  ultimately show ?thesis using Cons c ne(1) by simp
qed

lemma bracket_at_shorter: "bracket_at s = Some (g, r) \<Longrightarrow> length r < length s"
  by (drule bracket_at_shape) simp

lemma bracket_then_space_shorter:
  assumes "bracket_then_space U s = Some r"
  shows "length r < length s"
proof -
  from assms obtain g r' where b: "bracket_at s = Some (g, r')"
    and r: "r = dropWhile (isspace U) r'"
    by (auto simp: bracket_then_space_def split: option.splits)
  have "length r \<le> length r'" unfolding r by (rule length_dropWhile_le)
  with bracket_at_shorter [OF b] show ?thesis by simp
qed

lemma client_at_shorter: "client_at U s = Some r \<Longrightarrow> length r < length s"
proof (induction s)
  case Nil
  then show ?case by simp
next
  case (Cons c cs)
  show ?case
  proof (cases "isspace U c \<and> client_at U cs \<noteq> None")
    case True
    with Cons.prems have "client_at U cs = Some r" by auto
    from Cons.IH [OF this] show ?thesis by simp
  next
    case False
    with Cons.prems have "bracket_then_space U (c # cs) = Some r"
      by (auto split: if_splits option.splits)
    then show ?thesis by (rule bracket_then_space_shorter)
  qed
qed

lemma fuel_irrelevant:
  "length s \<le> n \<Longrightarrow> length s \<le> m \<Longrightarrow>
   re_sub_client_fuel n U s = re_sub_client_fuel m U s"
proof (induction n arbitrary: m s)
  case 0
  then show ?case by (cases m) simp_all
next
  case (Suc n)
  show ?case
  proof (cases s)
    case Nil
    then show ?thesis by (cases m) simp_all
  next
    case (Cons c cs)
    with Suc.prems obtain m' where m: "m = Suc m'" by (cases m) auto
    show ?thesis
    proof (cases "client_at U (c # cs)")
      case None
      with Suc.IH [of cs m'] Suc.prems Cons m show ?thesis by simp
    next
      case (Some r)
      from client_at_shorter [OF Some] Suc.prems Cons m
      have "length r \<le> n" "length r \<le> m'" by simp_all
      with Suc.IH [of r m'] Some Cons m show ?thesis by simp
    qed
  qed
qed

lemma re_sub_client_Nil: "re_sub_client U [] = []"
  by (simp add: re_sub_client_def)

lemma re_sub_client_Cons:
  "re_sub_client U (c # cs) =
     (case client_at U (c # cs) of
        Some r \<Rightarrow> 32 # re_sub_client U r
      | None \<Rightarrow> c # re_sub_client U cs)"
proof (cases "client_at U (c # cs)")
  case None
  then show ?thesis by (simp add: re_sub_client_def)
next
  case (Some r)
  from client_at_shorter [OF Some] have "length r \<le> length cs" by simp
  from fuel_irrelevant [OF this, of "length r" U] Some show ?thesis
    by (simp add: re_sub_client_def)
qed

lemma first_bracket_shape:
  "first_bracket s = Some (pre, g, post) \<Longrightarrow>
   s = pre @ 91 # g @ 93 # post \<and> g \<noteq> [] \<and> 93 \<notin> set g"
proof (induction s arbitrary: pre)
  case Nil
  then show ?case by simp
next
  case (Cons c cs)
  show ?case
  proof (cases "bracket_at (c # cs)")
    case (Some p)
    with Cons.prems have "bracket_at (c # cs) = Some (g, post)" "pre = []"
      by (auto split: prod.splits)
    with bracket_at_shape [of "c # cs" g post] show ?thesis by simp
  next
    case None
    with Cons.prems obtain pre' where "first_bracket cs = Some (pre', g, post)" "pre = c # pre'"
      by (auto split: option.splits)
    with Cons.IH [of pre'] show ?thesis by simp
  qed
qed

lemma re_search_first_bracket:
  "re_search_client s = map_option (\<lambda>p. fst (snd p)) (first_bracket s)"
  by (induction s) (auto split: option.splits)

lemma no_opening_no_bracket: "91 \<notin> set s \<Longrightarrow> first_bracket s = None"
proof (induction s)
  case Nil
  show ?case by simp
next
  case (Cons c cs)
  then have "bracket_at (c # cs) = None" by (simp add: bracket_at_def)
  with Cons show ?case by simp
qed

lemma client_at_no_bracket: "first_bracket s = None \<Longrightarrow> client_at U s = None"
proof (induction s)
  case Nil
  show ?case by simp
next
  case (Cons c cs)
  from Cons.prems have b: "bracket_at (c # cs) = None" and f: "first_bracket cs = None"
    by (auto split: option.splits)
  from Cons.IH [OF f] b show ?case by (simp add: bracket_then_space_def)
qed

lemma re_sub_no_bracket: "first_bracket s = None \<Longrightarrow> re_sub_client U s = s"
proof (induction s)
  case Nil
  show ?case by (rule re_sub_client_Nil)
next
  case (Cons c cs)
  from Cons.prems have f: "first_bracket cs = None" by (auto split: option.splits)
  from client_at_no_bracket [OF Cons.prems] Cons.IH [OF f] show ?case
    by (simp add: re_sub_client_Cons)
qed

lemma client_at_first_bracket:
  assumes "\<not> isspace U 91"
  shows "first_bracket s = Some (pre, g, post) \<Longrightarrow>
         client_at U s = (if \<forall>x \<in> set pre. isspace U x then Some (lstrip U post) else None)"
proof (induction s arbitrary: pre)
  case Nil
  then show ?case by simp
next
  case (Cons c cs)
  show ?case
  proof (cases "bracket_at (c # cs)")
    case (Some p)
    with Cons.prems have b: "bracket_at (c # cs) = Some (g, post)" and p: "pre = []"
      by (auto split: prod.splits)
    from bracket_at_shape [OF b] have "c = 91" by simp
    with assms b p show ?thesis by (simp add: bracket_then_space_def lstrip_def)
  next
    case None
    with Cons.prems obtain pre' where f: "first_bracket cs = Some (pre', g, post)"
      and p: "pre = c # pre'"
      by (auto split: option.splits)
    from None have bs: "bracket_then_space U (c # cs) = None"
      by (simp add: bracket_then_space_def)
    from Cons.IH [OF f] bs p show ?thesis by simp
  qed
qed

lemma rstrip_Cons:
  "rstrip U (c # p) = (if \<forall>x \<in> set (c # p). isspace U x then [] else c # rstrip U p)"
proof (cases "\<forall>x \<in> set p. isspace U x")
  case True
  then have "dropWhile (isspace U) (rev p) = []" by simp
  then show ?thesis by (simp add: rstrip_def dropWhile_append)
next
  case False
  then have "dropWhile (isspace U) (rev p) \<noteq> []" by (simp add: dropWhile_eq_Nil_conv)
  with False show ?thesis by (auto simp: rstrip_def dropWhile_append)
qed

lemma rstrip_Nil: "rstrip U [] = []"
  by (simp add: rstrip_def)

lemma re_sub_first_bracket:
  assumes "\<not> isspace U 91"
  shows "first_bracket s = Some (pre, g, post) \<Longrightarrow>
         re_sub_client U s = rstrip U pre @ 32 # re_sub_client U (lstrip U post)"
proof (induction s arbitrary: pre)
  case Nil
  then show ?case by simp
next
  case (Cons c cs)
  note ca = client_at_first_bracket [OF assms Cons.prems]
  show ?case
  proof (cases "bracket_at (c # cs)")
    case (Some p)
    with Cons.prems have "pre = []" by (auto split: prod.splits)
    with ca show ?thesis by (simp add: re_sub_client_Cons rstrip_Nil)
  next
    case None
    with Cons.prems obtain pre' where f: "first_bracket cs = Some (pre', g, post)"
      and p: "pre = c # pre'"
      by (auto split: option.splits)
    show ?thesis
    proof (cases "\<forall>x \<in> set pre. isspace U x")
      case True
      with ca p show ?thesis by (simp add: re_sub_client_Cons rstrip_Cons)
    next
      case False
      with ca have "client_at U (c # cs) = None" by simp
      with Cons.IH [OF f] False p show ?thesis
        by (simp add: re_sub_client_Cons rstrip_Cons)
    qed
  qed
qed


lemma set_strip: "set (strip U s) \<subseteq> set s"
proof -
  have "set (strip U s) \<subseteq> set (lstrip U s)"
    unfolding strip_def rstrip_def using set_dropWhileD [of _ "isspace U" "rev (lstrip U s)"]
    by auto
  also have "\<dots> \<subseteq> set s"
    unfolding lstrip_def by (auto dest: set_dropWhileD)
  finally show ?thesis .
qed

lemma parse_client_no_bracket:
  assumes "first_bracket (strip U line) = None"
  shows "parse_client_from_text U line = (None, strip U line)"
  using assms by (simp add: parse_client_from_text_def Let_def re_search_first_bracket)

lemma parse_client_first_bracket:
  assumes "\<not> isspace U 91" "first_bracket (strip U line) = Some (pre, g, post)"
  shows "parse_client_from_text U line
           = (Some (strip U g), strip U (rstrip U pre @ 32 # re_sub_client U (lstrip U post)))"
  using assms(2) re_sub_first_bracket [OF assms]
  by (simp add: parse_client_from_text_def Let_def re_search_first_bracket)

lemma client_examples:
  "parse_client_from_text py (ustr ''[A] text'') = (Some (ustr ''A''), ustr ''text'')"
  "parse_client_from_text py (ustr ''text [A]'') = (Some (ustr ''A''), ustr ''text'')"
  "parse_client_from_text py (ustr ''te [A] xt'') = (Some (ustr ''A''), ustr ''te xt'')"
  "parse_client_from_text py (ustr ''  plain text '') = (None, ustr ''plain text'')"
  by code_simp+

text \<open>
  C3 as stated fails: in \<open>[A] x [B]\<close> the first bracketed substring is \<open>[A]\<close>; with only
  that one removed the title would be \<open>x [B]\<close>, but the substitution removes every
  bracketed substring and the title is \<open>x\<close>.
\<close>

theorem second_bracket_counterexample:
  "parse_client_from_text py (ustr ''[A] x [B]'') = (Some (ustr ''A''), ustr ''x'')
   \<and> first_bracket_only py (ustr ''[A] x [B]'') = (Some (ustr ''A''), ustr ''x [B]'')"
  by code_simp

text \<open>
  C3, amended. After the marker is stripped, the client is the trimmed contents of
  the first bracketed substring of the trimmed text, and null when there is none (in
  particular when the text has no opening bracket), in which case the title is the
  trimmed text. When there is one, the title is the text before it without its
  trailing whitespace, one space, and the text after it without its leading
  whitespace and with every further bracketed substring (and the whitespace around
  it) replaced by one space; the whole trimmed. When the text holds a single
  bracketed substring this is the text with that substring removed and the whitespace
  around the gap collapsed, wherever the substring stands: \<open>[A] text\<close>, \<open>text [A]\<close> and
  \<open>te [A] xt\<close> give the client \<open>A\<close> and the titles \<open>text\<close>, \<open>text\<close> and \<open>te xt\<close>.
\<close>

theorem client_and_title:
  "(first_bracket (strip U line) = None
      \<longrightarrow> parse_client_from_text U line = (None, strip U line))
   \<and> (91 \<notin> set line \<longrightarrow> parse_client_from_text U line = (None, strip U line))
   \<and> (\<not> isspace U 91 \<and> first_bracket (strip U line) = Some (pre, g, post)
      \<longrightarrow> strip U line = pre @ 91 # g @ 93 # post
          \<and> parse_client_from_text U line
              = (Some (strip U g),
                 strip U (rstrip U pre @ 32 # re_sub_client U (lstrip U post))))
   \<and> (\<not> isspace U 91 \<and> first_bracket (strip U line) = Some (pre, g, post)
         \<and> first_bracket (lstrip U post) = None
      \<longrightarrow> parse_client_from_text U line = first_bracket_only U line)
   \<and> parse_client_from_text py (ustr ''[A] text'') = (Some (ustr ''A''), ustr ''text'')
   \<and> parse_client_from_text py (ustr ''text [A]'') = (Some (ustr ''A''), ustr ''text'')
   \<and> parse_client_from_text py (ustr ''te [A] xt'') = (Some (ustr ''A''), ustr ''te xt'')
   \<and> parse_client_from_text py (ustr ''  plain text '') = (None, ustr ''plain text'')"
proof -
  have 1: "first_bracket (strip U line) = None
             \<longrightarrow> parse_client_from_text U line = (None, strip U line)"
    by (simp add: parse_client_no_bracket)
  have 2: "91 \<notin> set line \<longrightarrow> parse_client_from_text U line = (None, strip U line)"
  proof
    assume "91 \<notin> set line"
    with set_strip [of U line] have "91 \<notin> set (strip U line)" by blast
    then have "first_bracket (strip U line) = None" by (rule no_opening_no_bracket)
    then show "parse_client_from_text U line = (None, strip U line)"
      by (rule parse_client_no_bracket)
  qed
  have 3: "\<not> isspace U 91 \<and> first_bracket (strip U line) = Some (pre, g, post)
      \<longrightarrow> strip U line = pre @ 91 # g @ 93 # post
          \<and> parse_client_from_text U line
              = (Some (strip U g),
                 strip U (rstrip U pre @ 32 # re_sub_client U (lstrip U post)))"
    using parse_client_first_bracket [of U line pre g post]
      first_bracket_shape [of "strip U line" pre g post]
    by blast
  have 4: "\<not> isspace U 91 \<and> first_bracket (strip U line) = Some (pre, g, post)
         \<and> first_bracket (lstrip U post) = None
      \<longrightarrow> parse_client_from_text U line = first_bracket_only U line"
  proof
    assume a: "\<not> isspace U 91 \<and> first_bracket (strip U line) = Some (pre, g, post)
         \<and> first_bracket (lstrip U post) = None"
    then have "re_sub_client U (lstrip U post) = lstrip U post"
      by (simp add: re_sub_no_bracket)
    with a parse_client_first_bracket [of U line pre g post]
    show "parse_client_from_text U line = first_bracket_only U line"
      by (simp add: first_bracket_only_def)
  qed
  from 1 2 3 4 client_examples show ?thesis by blast
qed

theorem client_and_title_witness:
  "\<not> isspace py 91
   \<and> first_bracket (strip py (ustr '' do [A] it [B] now ''))
       = Some (ustr ''do '', ustr ''A'', ustr '' it [B] now'')
   \<and> parse_client_from_text py (ustr '' do [A] it [B] now '')
       = (Some (ustr ''A''), ustr ''do it now'')"
proof -
  have s: "\<not> isspace py 91" by (simp add: py_def space_cp_def)
  have f: "first_bracket (strip py (ustr '' do [A] it [B] now ''))
             = Some (ustr ''do '', ustr ''A'', ustr '' it [B] now'')"
    by code_simp
  have v: "(Some (strip py (ustr ''A'')),
            strip py (rstrip py (ustr ''do '') @ 32 # re_sub_client py (lstrip py (ustr '' it [B] now''))))
           = (Some (ustr ''A''), ustr ''do it now'')"
    by code_simp
  from client_and_title [of py "ustr '' do [A] it [B] now ''" "ustr ''do ''" "ustr ''A''"
      "ustr '' it [B] now''"] s f
  have "parse_client_from_text py (ustr '' do [A] it [B] now '')
          = (Some (strip py (ustr ''A'')),
             strip py (rstrip py (ustr ''do '') @ 32 # re_sub_client py (lstrip py (ustr '' it [B] now''))))"
    by blast
  with s f v show ?thesis by simp
qed

section \<open>Properties of calculate_goal_progress\<close>

subsection \<open>Rounding\<close>

lemma round_half_even_error:
  assumes "0 < q"
  shows "\<bar>real (round_half_even p q) - real p / real q\<bar> \<le> 1 / 2"
proof -
  define f r where "f = p div q" and "r = p mod q"
  have p: "real p = real q * real f + real r"
    unfolding f_def r_def by (metis div_mult_mod_eq mult.commute of_nat_add of_nat_mult)
  have r: "r < q" unfolding r_def using assms by simp
  have q: "0 < real q" using assms by simp
  have frac: "real p / real q = real f + real r / real q"
    using q by (simp add: p field_simps)
  consider "2 * r < q" | "q < 2 * r" | "2 * r = q" by linarith
  then show ?thesis
  proof cases
    case 1
    then have "round_half_even p q = f"
      by (simp add: round_half_even_def Let_def f_def r_def)
    moreover from 1 have "2 * real r \<le> real q" by linarith
    then have "real r / real q \<le> 1 / 2" using q by (simp add: field_simps)
    moreover have "0 \<le> real r / real q" using q by simp
    ultimately show ?thesis by (simp add: frac)
  next
    case 2
    then have "round_half_even p q = f + 1"
      by (simp add: round_half_even_def Let_def f_def r_def)
    moreover from 2 have "real q \<le> 2 * real r" by linarith
    then have "1 / 2 \<le> real r / real q" using q by (simp add: field_simps)
    moreover from r have "real r / real q \<le> 1" using q by (simp add: field_simps)
    ultimately show ?thesis by (simp add: frac)
  next
    case 3
    then have either: "round_half_even p q = f \<or> round_half_even p q = f + 1"
      by (simp add: round_half_even_def Let_def f_def r_def)
    from 3 have "2 * real r = real q" by (metis of_nat_mult of_nat_numeral)
    then have "real r / real q = 1 / 2" using q by (simp add: field_simps)
    then have half: "real p / real q = real f + 1 / 2" by (simp only: frac)
    from either show ?thesis
    proof
      assume "round_half_even p q = f"
      then show ?thesis by (simp add: half)
    next
      assume "round_half_even p q = f + 1"
      then show ?thesis by (simp add: half)
    qed
  qed
qed

lemma round_half_even_unique:
  assumes "0 < q" "\<bar>real p / real q - real_of_int N\<bar> < 1 / 2"
  shows "int (round_half_even p q) = N"
proof -
  from round_half_even_error [OF assms(1), of p] assms(2)
  have "\<bar>real (round_half_even p q) - real_of_int N\<bar> < 1" by linarith
  then have "\<bar>real_of_int (int (round_half_even p q) - N)\<bar> < 1" by simp
  then have "\<bar>int (round_half_even p q) - N\<bar> < 1" by linarith
  then show ?thesis by linarith
qed


lemma round_half_even_ge_div: "p div q \<le> round_half_even p q"
  by (simp add: round_half_even_def Let_def)

subsection \<open>Doubles\<close>

lemma scale_up_spec:
  assumes "0 < p"
  shows "\<exists>k. scale_up p q e = (p * 2 ^ k, e - int k) \<and> 2 ^ 52 * q \<le> p * 2 ^ k"
  using assms
proof (induction p q e rule: scale_up.induct)
  case (1 p q e)
  show ?case
  proof (cases "2 ^ 52 * q \<le> p")
    case True
    then have "scale_up p q e = (p * 2 ^ 0, e - int 0) \<and> 2 ^ 52 * q \<le> p * 2 ^ 0"
      by (subst scale_up.simps) simp
    then show ?thesis by blast
  next
    case False
    with "1.prems" have c: "\<not> (p = 0 \<or> 2 ^ 52 * q \<le> p)" by simp
    from "1.prems" have "0 < 2 * p" by simp
    from "1.IH" [OF c this] obtain k where
      k: "scale_up (2 * p) q (e - 1) = (2 * p * 2 ^ k, e - 1 - int k)"
         "2 ^ 52 * q \<le> 2 * p * 2 ^ k"
      by blast
    from c have "scale_up p q e = scale_up (2 * p) q (e - 1)"
      by (subst scale_up.simps) simp
    with k have "scale_up p q e = (p * 2 ^ Suc k, e - int (Suc k))
                 \<and> 2 ^ 52 * q \<le> p * 2 ^ Suc k"
      by (simp add: mult.commute mult.left_commute)
    then show ?thesis by blast
  qed
qed

lemma scale_down_spec:
  assumes "0 < q"
  shows "\<exists>j. scale_down p q e = (q * 2 ^ j, e + int j) \<and> p < 2 ^ 53 * (q * 2 ^ j)
             \<and> (2 ^ 52 * q \<le> p \<longrightarrow> 2 ^ 52 * (q * 2 ^ j) \<le> p)"
  using assms
proof (induction p q e rule: scale_down.induct)
  case (1 p q e)
  show ?case
  proof (cases "p < 2 ^ 53 * q")
    case True
    then have "scale_down p q e = (q * 2 ^ 0, e + int 0) \<and> p < 2 ^ 53 * (q * 2 ^ 0)
               \<and> (2 ^ 52 * q \<le> p \<longrightarrow> 2 ^ 52 * (q * 2 ^ 0) \<le> p)"
      by (subst scale_down.simps) simp
    then show ?thesis by blast
  next
    case False
    with "1.prems" have c: "\<not> (q = 0 \<or> p < 2 ^ 53 * q)" by simp
    from "1.prems" have "0 < 2 * q" by simp
    from "1.IH" [OF c this] obtain j where
      j: "scale_down p (2 * q) (e + 1) = (2 * q * 2 ^ j, e + 1 + int j)"
         "p < 2 ^ 53 * (2 * q * 2 ^ j)"
         "2 ^ 52 * (2 * q) \<le> p \<longrightarrow> 2 ^ 52 * (2 * q * 2 ^ j) \<le> p"
      by blast
    from False have "2 ^ 52 * (2 * q) \<le> p" by simp
    with j(3) have le: "2 ^ 52 * (2 * q * 2 ^ j) \<le> p" by blast
    from c have "scale_down p q e = scale_down p (2 * q) (e + 1)"
      by (subst scale_down.simps) simp
    with j(1,2) le have "scale_down p q e = (q * 2 ^ Suc j, e + int (Suc j))
                 \<and> p < 2 ^ 53 * (q * 2 ^ Suc j)
                 \<and> (2 ^ 52 * q \<le> p \<longrightarrow> 2 ^ 52 * (q * 2 ^ Suc j) \<le> p)"
      by (simp add: mult.commute mult.left_commute)
    then show ?thesis by blast
  qed
qed

lemma to_double_error:
  assumes "0 < p" "0 < q"
  shows "\<bar>double_value (to_double p q e) - real p / real q * 2 powr real_of_int e\<bar>
           \<le> real p / real q * 2 powr real_of_int e / 2 ^ 53
         \<and> 0 < mant (to_double p q e)"
proof -
  from scale_up_spec [OF assms(1), of q e] obtain k where
    k: "scale_up p q e = (p * 2 ^ k, e - int k)" "2 ^ 52 * q \<le> p * 2 ^ k"
    by blast
  from scale_down_spec [OF assms(2), of "p * 2 ^ k" "e - int k"] k(2) obtain j where
    j: "scale_down (p * 2 ^ k) q (e - int k) = (q * 2 ^ j, e - int k + int j)"
       "2 ^ 52 * (q * 2 ^ j) \<le> p * 2 ^ k"
    by blast
  define p' q' m where "p' = p * 2 ^ k" and "q' = q * 2 ^ j" and "m = round_half_even p' q'"
  define E where "E = 2 powr real_of_int (e - int k + int j)"
  have D: "to_double p q e = \<lparr> mant = m, expo = e - int k + int j \<rparr>"
    by (simp add: to_double_def k(1) j(1) p'_def q'_def m_def)
  have q': "0 < q'" using assms(2) by (simp add: q'_def)
  have E: "0 < E" by (simp add: E_def)
  have Eeq: "E = 2 powr real_of_int e * 2 ^ j / 2 ^ k"
    by (simp add: E_def powr_add powr_diff powr_realpow)
  have X: "real p / real q * 2 powr real_of_int e = real p' / real q' * E"
    using assms by (simp add: p'_def q'_def Eeq field_simps)
  have big: "2 ^ 52 \<le> real p' / real q'"
  proof -
    from j(2) have "2 ^ 52 * q' \<le> p'" by (simp add: p'_def q'_def)
    then have "real (2 ^ 52 * q') \<le> real p'" by (rule of_nat_mono)
    then have "2 ^ 52 * real q' \<le> real p'" by simp
    with q' show ?thesis by (simp add: field_simps)
  qed
  have err: "\<bar>real m - real p' / real q'\<bar> \<le> 1 / 2"
    unfolding m_def by (rule round_half_even_error [OF q'])
  have dv: "double_value (to_double p q e) = real m * E"
    by (simp add: D double_value_def E_def)
  have "\<bar>double_value (to_double p q e) - real p' / real q' * E\<bar>
          = \<bar>(real m - real p' / real q') * E\<bar>"
    by (simp only: dv left_diff_distrib)
  also have "\<dots> = \<bar>real m - real p' / real q'\<bar> * E"
    using E by (simp add: abs_mult)
  also have "\<dots> \<le> 1 / 2 * E"
    using err E by (simp add: mult_right_mono)
  also have "\<dots> \<le> real p' / real q' * E / 2 ^ 53"
  proof -
    have "2 ^ 52 * E \<le> real p' / real q' * E"
      by (rule mult_right_mono [OF big]) (use E in simp)
    then have "2 ^ 52 * E / 2 ^ 53 \<le> real p' / real q' * E / 2 ^ 53"
      by (rule divide_right_mono) simp
    moreover have "1 / 2 * E = 2 ^ 52 * E / 2 ^ 53" by simp
    ultimately show ?thesis by (simp only:)
  qed
  finally have 1: "\<bar>double_value (to_double p q e) - real p / real q * 2 powr real_of_int e\<bar>
           \<le> real p / real q * 2 powr real_of_int e / 2 ^ 53"
    by (simp only: X)
  have "2 ^ 52 * q' \<le> p'" using j(2) by (simp add: p'_def q'_def)
  then have "2 ^ 52 \<le> p' div q'"
    using q' by (simp add: less_eq_div_iff_mult_less_eq mult.commute)
  then have "0 < p' div q'"
    by (rule less_le_trans [rotated]) simp
  with round_half_even_ge_div [of p' q'] have "0 < m"
    unfolding m_def by simp
  with 1 D show ?thesis by simp
qed

lemma float_round_unique:
  assumes "\<bar>double_value x - real_of_int N\<bar> < 1 / 2"
  shows "int (float_round x) = N"
proof (cases "0 \<le> expo x")
  case True
  then have "double_value x = real (mant x * 2 ^ nat (expo x))"
    by (simp add: double_value_def powr_realpow [symmetric])
  with assms have "\<bar>real_of_int (int (mant x * 2 ^ nat (expo x)) - N)\<bar> < 1 / 2"
    by simp
  then have "\<bar>int (mant x * 2 ^ nat (expo x)) - N\<bar> < 1" by linarith
  with True show ?thesis by (simp add: float_round_def)
next
  case False
  then have "double_value x = real (mant x) / real (2 ^ nat (- expo x))"
    by (simp add: double_value_def powr_minus_divide powr_realpow [symmetric]
          powr_minus [symmetric])
  with assms round_half_even_unique [of "2 ^ nat (- expo x)" "mant x" N] False
  show ?thesis by (simp add: float_round_def)
qed

lemma float_round_error: "\<bar>real (float_round x) - double_value x\<bar> \<le> 1 / 2"
proof (cases "0 \<le> expo x")
  case True
  then have "double_value x = real (mant x * 2 ^ nat (expo x))"
    by (simp add: double_value_def powr_realpow [symmetric])
  with True show ?thesis by (simp add: float_round_def)
next
  case False
  then have "double_value x = real (mant x) / real (2 ^ nat (- expo x))"
    by (simp add: double_value_def powr_minus_divide powr_realpow [symmetric]
          powr_minus [symmetric])
  with round_half_even_error [of "2 ^ nat (- expo x)" "mant x"] False
  show ?thesis by (simp add: float_round_def)
qed

subsection \<open>The percentage\<close>

lemma percent_of_zero:
  assumes "0 < t"
  shows "percent_of 0 t = 0"
proof -
  have u: "scale_up 0 q e = (0, e)" for q e
    by (subst scale_up.simps) simp
  have d: "scale_down 0 q e = (q, e)" for q e
    by (subst scale_down.simps) auto
  have r: "round_half_even 0 q = 0" for q
    by (simp add: round_half_even_def)
  show ?thesis
    by (simp add: percent_of_def float_round_def float_mul_def float_div_def to_double_def
          u d r)
qed

lemma product_error:
  assumes "0 < d" "d \<le> t"
  shows "\<bar>double_value (float_mul (float_div d t) 100) - 100 * real d / real t\<bar> \<le> 201 / 2 ^ 53"
proof -
  let ?y = "real d / real t"
  let ?x1 = "float_div d t"
  let ?v1 = "double_value ?x1"
  let ?v2 = "double_value (float_mul ?x1 100)"
  from assms have t: "0 < t" by simp
  have y: "0 \<le> ?y" "?y \<le> 1" using assms by simp_all
  from to_double_error [OF assms(1) t, of 0]
  have e1: "\<bar>?v1 - ?y\<bar> \<le> ?y / 2 ^ 53" and m1: "0 < mant ?x1"
    by (simp_all add: float_div_def)
  from m1 have "0 < mant ?x1 * 100" by simp
  from to_double_error [OF this, of 1 "expo ?x1"]
  have "\<bar>?v2 - real (mant ?x1 * 100) / real 1 * 2 powr real_of_int (expo ?x1)\<bar>
          \<le> real (mant ?x1 * 100) / real 1 * 2 powr real_of_int (expo ?x1) / 2 ^ 53"
    by (simp add: float_mul_def)
  moreover have "real (mant ?x1 * 100) / real 1 * 2 powr real_of_int (expo ?x1) = 100 * ?v1"
    by (simp add: double_value_def)
  ultimately have e2: "\<bar>?v2 - 100 * ?v1\<bar> \<le> 100 * ?v1 / 2 ^ 53"
    by (simp only:)
  from y(2) have "?y / 2 ^ 53 \<le> 1 / 2 ^ 53"
    by (rule divide_right_mono) simp
  with e1 y have v1: "?v1 \<le> 1 + 1 / 2 ^ 53" by linarith
  have "\<bar>?v2 - 100 * ?y\<bar> = \<bar>(?v2 - 100 * ?v1) + 100 * (?v1 - ?y)\<bar>"
    by (simp add: algebra_simps)
  also have "\<dots> \<le> \<bar>?v2 - 100 * ?v1\<bar> + \<bar>100 * (?v1 - ?y)\<bar>"
    by (rule abs_triangle_ineq)
  also have "\<dots> = \<bar>?v2 - 100 * ?v1\<bar> + 100 * \<bar>?v1 - ?y\<bar>"
    by (simp only: abs_mult abs_numeral)
  also have "\<dots> \<le> 100 * ?v1 / 2 ^ 53 + 100 * (?y / 2 ^ 53)"
  proof (rule add_mono [OF e2])
    show "100 * \<bar>?v1 - ?y\<bar> \<le> 100 * (?y / 2 ^ 53)"
      by (rule mult_left_mono [OF e1]) simp
  qed
  also have "\<dots> \<le> 100 * (1 + 1 / 2 ^ 53) / 2 ^ 53 + 100 * (1 / 2 ^ 53)"
  proof (rule add_mono)
    have "100 * ?v1 \<le> 100 * (1 + 1 / 2 ^ 53)"
      by (rule mult_left_mono [OF v1]) simp
    then show "100 * ?v1 / 2 ^ 53 \<le> 100 * (1 + 1 / 2 ^ 53) / 2 ^ 53"
      by (rule divide_right_mono) simp
    have "?y / 2 ^ 53 \<le> 1 / 2 ^ 53"
      by (rule divide_right_mono [OF y(2)]) simp
    then show "100 * (?y / 2 ^ 53) \<le> 100 * (1 / 2 ^ 53)"
      by (rule mult_left_mono) simp
  qed
  also have "\<dots> \<le> 201 / 2 ^ 53" by simp
  finally show ?thesis by simp
qed

lemma exact_gap:
  assumes "0 < t" "2 * (p mod t) \<noteq> t"
  shows "\<bar>real p / real t - real (round_half_even p t)\<bar> \<le> 1 / 2 - 1 / (2 * real t)"
proof -
  define f r where "f = p div t" and "r = p mod t"
  have p: "real p = real t * real f + real r"
    unfolding f_def r_def by (metis div_mult_mod_eq mult.commute of_nat_add of_nat_mult)
  have r: "r < t" unfolding r_def using assms(1) by simp
  have t: "0 < real t" using assms(1) by simp
  have frac: "real p / real t = real f + real r / real t"
    using t by (simp add: p field_simps)
  from assms(2) consider "2 * r < t" | "t < 2 * r" unfolding r_def by linarith
  then show ?thesis
  proof cases
    case 1
    then have m: "round_half_even p t = f"
      by (simp add: round_half_even_def Let_def f_def r_def)
    from 1 have "2 * r + 1 \<le> t" by simp
    then have "real (2 * r + 1) \<le> real t" by (rule of_nat_mono)
    then have "2 * real r \<le> real t - 1" by simp
    then have "(2 * real r) / (2 * real t) \<le> (real t - 1) / (2 * real t)"
      by (rule divide_right_mono) (use t in simp)
    moreover have "(real t - 1) / (2 * real t) = 1 / 2 - 1 / (2 * real t)"
      using t by (simp add: diff_divide_distrib)
    moreover have "(2 * real r) / (2 * real t) = real r / real t" by simp
    ultimately have "real r / real t \<le> 1 / 2 - 1 / (2 * real t)"
      by (simp only:)
    moreover have "0 \<le> real r / real t" using t by simp
    ultimately show ?thesis by (simp add: frac m)
  next
    case 2
    then have m: "round_half_even p t = f + 1"
      by (simp add: round_half_even_def Let_def f_def r_def)
    from 2 have "t + 1 \<le> 2 * r" by simp
    then have "real (t + 1) \<le> real (2 * r)" by (rule of_nat_mono)
    then have "real t + 1 \<le> 2 * real r" by simp
    then have "(real t + 1) / (2 * real t) \<le> (2 * real r) / (2 * real t)"
      by (rule divide_right_mono) (use t in simp)
    moreover have "(real t + 1) / (2 * real t) = 1 / 2 + 1 / (2 * real t)"
      using t by (simp add: add_divide_distrib)
    moreover have "(2 * real r) / (2 * real t) = real r / real t" by simp
    ultimately have "1 / 2 + 1 / (2 * real t) \<le> real r / real t"
      by (simp only:)
    moreover from r have "real r / real t \<le> 1" using t by (simp add: field_simps)
    ultimately show ?thesis by (simp add: frac m)
  qed
qed

lemma small_error:
  assumes "0 < t" "t < 2 ^ 44"
  shows "201 / 2 ^ 53 < 1 / (2 * real t)"
proof -
  from assms(2) have "real t < 2 ^ 44"
    by (metis of_nat_less_iff of_nat_numeral of_nat_power)
  then have "402 * real t < 2 ^ 53" by simp
  with assms(1) show ?thesis by (simp add: field_simps)
qed

lemma percent_exact:
  assumes "0 < t" "d \<le> t" "t < 2 ^ 44" "2 * ((100 * d) mod t) \<noteq> t"
  shows "percent_of d t = percent_half_even d t"
proof (cases "d = 0")
  case True
  with assms(1) show ?thesis
    by (simp add: percent_of_zero percent_half_even_def round_half_even_def)
next
  case False
  then have d: "0 < d" by simp
  let ?v2 = "double_value (float_mul (float_div d t) 100)"
  have X: "real (100 * d) / real t = 100 * real d / real t" by simp
  from exact_gap [OF assms(1,4)]
  have g: "\<bar>100 * real d / real t - real (round_half_even (100 * d) t)\<bar>
             \<le> 1 / 2 - 1 / (2 * real t)"
    by (simp only: X)
  from product_error [OF d assms(2)] small_error [OF assms(1,3)] g
  have "\<bar>?v2 - real (round_half_even (100 * d) t)\<bar> < 1 / 2"
    by linarith
  then have "\<bar>?v2 - real_of_int (int (round_half_even (100 * d) t))\<bar> < 1 / 2"
    by simp
  from float_round_unique [OF this] show ?thesis
    by (simp add: percent_of_def percent_half_even_def)
qed

lemma percent_near:
  assumes "0 < t" "d \<le> t" "t < 2 ^ 44"
  shows "\<bar>real_of_int (percent_of d t) - 100 * real d / real t\<bar> < 1"
proof (cases "d = 0")
  case True
  with assms(1) show ?thesis by (simp add: percent_of_zero)
next
  case False
  then have d: "0 < d" by simp
  let ?x2 = "float_mul (float_div d t) 100"
  have b: "1 / (2 * real t) \<le> 1 / 2"
    using assms(1) by (simp add: field_simps)
  from product_error [OF d assms(2)] small_error [OF assms(1,3)]
  have a: "\<bar>double_value ?x2 - 100 * real d / real t\<bar> < 1 / (2 * real t)"
    by linarith
  from a b float_round_error [of ?x2]
  have "\<bar>real (float_round ?x2) - 100 * real d / real t\<bar> < 1"
    by linarith
  then show ?thesis by (simp add: percent_of_def)
qed

lemma half_up_eq_half_even:
  assumes "0 < t" "2 * (p mod t) \<noteq> t"
  shows "(2 * p + t) div (2 * t) = round_half_even p t"
proof -
  define f r where "f = p div t" and "r = p mod t"
  have p: "p = f * t + r" unfolding f_def r_def by simp
  have r: "r < t" unfolding r_def using assms(1) by simp
  have s: "2 * p + t = (2 * r + t) + f * (2 * t)" by (simp add: p algebra_simps)
  have dv: "(2 * p + t) div (2 * t) = (2 * r + t) div (2 * t) + f"
    unfolding s using assms(1) by simp
  from assms(2) consider "2 * r < t" | "t < 2 * r" unfolding r_def by linarith
  then show ?thesis
  proof cases
    case 1
    then have "(2 * r + t) div (2 * t) = 0" by simp
    with 1 dv show ?thesis
      by (simp add: round_half_even_def Let_def f_def r_def)
  next
    case 2
    with r have "(2 * r + t) div (2 * t) = 1"
      by (intro div_nat_eqI) simp_all
    with 2 dv show ?thesis
      by (simp add: round_half_even_def Let_def f_def r_def)
  qed
qed

subsection \<open>The counts\<close>

lemma done_not_in_progress: "ustr ''Done'' \<noteq> ustr ''In Progress''"
  by (simp add: ustr_def)

lemma three_way_count:
  "length (filter (\<lambda>t. status t = a) ts) + length (filter (\<lambda>t. status t = b) ts)
     + length (filter (\<lambda>t. status t \<noteq> a \<and> status t \<noteq> b) ts) = length ts"
  if "a \<noteq> b"
  using that by (induction ts) auto

lemma progress_fields:
  assumes "goal_tasks \<noteq> []"
  shows "total (calculate_goal_progress goal_tasks) = int (length goal_tasks)"
    and "done_n (calculate_goal_progress goal_tasks)
           = int (count_status (ustr ''Done'') goal_tasks)"
    and "inProgress (calculate_goal_progress goal_tasks)
           = int (count_status (ustr ''In Progress'') goal_tasks)"
    and "todo (calculate_goal_progress goal_tasks)
           = total (calculate_goal_progress goal_tasks)
             - done_n (calculate_goal_progress goal_tasks)
             - inProgress (calculate_goal_progress goal_tasks)"
    and "percent (calculate_goal_progress goal_tasks)
           = percent_of (count_status (ustr ''Done'') goal_tasks) (length goal_tasks)"
  using assms by (simp_all add: calculate_goal_progress_def Let_def count_status_def)

lemma todo_is_the_rest:
  assumes "goal_tasks \<noteq> []"
  shows "todo (calculate_goal_progress goal_tasks)
           = int (length (filter (\<lambda>t. status t \<noteq> ustr ''Done''
                                       \<and> status t \<noteq> ustr ''In Progress'') goal_tasks))"
proof -
  from three_way_count [OF done_not_in_progress, of goal_tasks]
  have "int (length goal_tasks)
          = int (count_status (ustr ''Done'') goal_tasks)
            + int (count_status (ustr ''In Progress'') goal_tasks)
            + int (length (filter (\<lambda>t. status t \<noteq> ustr ''Done''
                                       \<and> status t \<noteq> ustr ''In Progress'') goal_tasks))"
    unfolding count_status_def by linarith
  with progress_fields [OF assms] show ?thesis by simp
qed

lemma count_le_length: "count_status s ts \<le> length ts"
  by (simp add: count_status_def)

lemma completed_iff:
  "completed (build_goal U tasks ex g) = (completionPercent (build_goal U tasks ex g) = 100)"
  "completed (build_side_goal U tasks ex g)
     = (completionPercent (build_side_goal U tasks ex g) = 100)"
  by (simp_all add: build_goal_def build_side_goal_def make_goal_record_def Let_def)

lemmas float_eval = percent_of_def float_round_def float_mul_def float_div_def to_double_def
  round_half_even_def scale_up.simps scale_down.simps

lemma percent_values:
  "percent_of 23 40 = 57" "percent_of 2 3 = 67" "percent_of 1 4 = 25"
  by (simp_all add: float_eval)

lemma percent_values_Suc:
  "percent_of (Suc (Suc 0)) (Suc (Suc (Suc 0))) = 67"
  "percent_of (Suc 0) (Suc (Suc (Suc (Suc 0)))) = 25"
  using percent_values(2,3) by (simp_all add: eval_nat_numeral)

lemma status_neq:
  "ustr ''Done'' \<noteq> ustr ''In Progress''" "ustr ''To Do'' \<noteq> ustr ''Done''"
  "ustr ''To Do'' \<noteq> ustr ''In Progress''" "ustr ''In Progress'' \<noteq> ustr ''Done''"
  "ustr ''x'' \<noteq> ustr ''Done''" "ustr ''x'' \<noteq> ustr ''In Progress''"
  by (simp_all add: ustr_def)

lemma progress_examples:
  "calculate_goal_progress
     [task_with_status (ustr ''Done''), task_with_status (ustr ''Done''),
      task_with_status (ustr ''In Progress'')]
   = \<lparr> done_n = 2, inProgress = 1, todo = 0, total = 3, percent = 67 \<rparr>"
  "calculate_goal_progress
     [task_with_status (ustr ''Done''), task_with_status (ustr ''To Do''),
      task_with_status (ustr ''To Do''), task_with_status (ustr ''To Do'')]
   = \<lparr> done_n = 1, inProgress = 0, todo = 3, total = 4, percent = 25 \<rparr>"
  by (simp_all add: calculate_goal_progress_def Let_def task_with_status_def status_neq
        percent_values_Suc)

text \<open>
  C4 as stated fails: of 40 tasks with 23 done the exact percentage is 57.5, which
  either rounding rule takes to 58; the double nearest to 23/40 lies below it, the
  product with 100 is the double just below 57.5, and the percentage computed is 57.
\<close>

theorem percent_counterexample:
  "done_n (calculate_goal_progress
       (replicate 23 (task_with_status (ustr ''Done''))
        @ replicate 17 (task_with_status (ustr ''To Do'')))) = 23
   \<and> total (calculate_goal_progress
       (replicate 23 (task_with_status (ustr ''Done''))
        @ replicate 17 (task_with_status (ustr ''To Do'')))) = 40
   \<and> percent (calculate_goal_progress
       (replicate 23 (task_with_status (ustr ''Done''))
        @ replicate 17 (task_with_status (ustr ''To Do'')))) = 57
   \<and> percent_half_even 23 40 = 58
   \<and> percent_half_up 23 40 = 58"
  using percent_values(1)
  by (simp add: calculate_goal_progress_def Let_def task_with_status_def status_neq
        percent_half_even_def percent_half_up_def round_half_even_def)

text \<open>
  C4, amended. Aggregating the empty list yields zeros throughout. Otherwise total is
  the length of the list, done the number of tasks with status Done, inProgress the
  number with status In Progress, and todo = total - done - inProgress, which is the
  number of tasks with any other status, so that done + inProgress + todo = total. The
  percentage is \<open>round\<close> of the double product of the double quotient done / total with
  100. For lists of fewer than \<open>2 ^ 44\<close> tasks it differs from the exact value
  100 * done / total by less than 1, and whenever that exact value is not half-way
  between two integers it is the nearest integer, which is what both rounding rules
  give; on a tie neither rule is followed throughout. A goal record is completed
  exactly when its percentage is 100. Two Done and one In Progress give 2, 1, 0, 3
  and 67; one Done and three To Do give 1, 0, 3, 4 and 25.
\<close>

theorem aggregate_progress:
  "calculate_goal_progress []
     = \<lparr> done_n = 0, inProgress = 0, todo = 0, total = 0, percent = 0 \<rparr>
   \<and> (goal_tasks \<noteq> [] \<longrightarrow>
        total (calculate_goal_progress goal_tasks) = int (length goal_tasks)
      \<and> done_n (calculate_goal_progress goal_tasks)
          = int (count_status (ustr ''Done'') goal_tasks)
      \<and> inProgress (calculate_goal_progress goal_tasks)
          = int (count_status (ustr ''In Progress'') goal_tasks)
      \<and> todo (calculate_goal_progress goal_tasks)
          = total (calculate_goal_progress goal_tasks)
            - done_n (calculate_goal_progress goal_tasks)
            - inProgress (calculate_goal_progress goal_tasks)
      \<and> todo (calculate_goal_progress goal_tasks)
          = int (length (filter (\<lambda>t. status t \<noteq> ustr ''Done''
                                      \<and> status t \<noteq> ustr ''In Progress'') goal_tasks))
      \<and> done_n (calculate_goal_progress goal_tasks)
          + inProgress (calculate_goal_progress goal_tasks)
          + todo (calculate_goal_progress goal_tasks)
          = total (calculate_goal_progress goal_tasks)
      \<and> percent (calculate_goal_progress goal_tasks)
          = percent_of (count_status (ustr ''Done'') goal_tasks) (length goal_tasks))
   \<and> (goal_tasks \<noteq> [] \<and> length goal_tasks < 2 ^ 44 \<longrightarrow>
        \<bar>real_of_int (percent (calculate_goal_progress goal_tasks))
          - 100 * real (count_status (ustr ''Done'') goal_tasks) / real (length goal_tasks)\<bar> < 1)
   \<and> (goal_tasks \<noteq> [] \<and> length goal_tasks < 2 ^ 44
       \<and> 2 * ((100 * count_status (ustr ''Done'') goal_tasks) mod length goal_tasks)
           \<noteq> length goal_tasks \<longrightarrow>
        percent (calculate_goal_progress goal_tasks)
          = percent_half_even (count_status (ustr ''Done'') goal_tasks) (length goal_tasks)
      \<and> percent (calculate_goal_progress goal_tasks)
          = percent_half_up (count_status (ustr ''Done'') goal_tasks) (length goal_tasks))
   \<and> completed (build_goal U tasks ex g) = (completionPercent (build_goal U tasks ex g) = 100)
   \<and> completed (build_side_goal U tasks ex g)
       = (completionPercent (build_side_goal U tasks ex g) = 100)
   \<and> calculate_goal_progress
       [task_with_status (ustr ''Done''), task_with_status (ustr ''Done''),
        task_with_status (ustr ''In Progress'')]
      = \<lparr> done_n = 2, inProgress = 1, todo = 0, total = 3, percent = 67 \<rparr>
   \<and> calculate_goal_progress
       [task_with_status (ustr ''Done''), task_with_status (ustr ''To Do''),
        task_with_status (ustr ''To Do''), task_with_status (ustr ''To Do'')]
      = \<lparr> done_n = 1, inProgress = 0, todo = 3, total = 4, percent = 25 \<rparr>"
proof -
  let ?d = "count_status (ustr ''Done'') goal_tasks"
  let ?t = "length goal_tasks"
  have 1: "calculate_goal_progress []
     = \<lparr> done_n = 0, inProgress = 0, todo = 0, total = 0, percent = 0 \<rparr>"
    by (simp add: calculate_goal_progress_def)
  have 2: "total (calculate_goal_progress goal_tasks) = int (length goal_tasks)
      \<and> done_n (calculate_goal_progress goal_tasks) = int ?d
      \<and> inProgress (calculate_goal_progress goal_tasks)
          = int (count_status (ustr ''In Progress'') goal_tasks)
      \<and> todo (calculate_goal_progress goal_tasks)
          = total (calculate_goal_progress goal_tasks)
            - done_n (calculate_goal_progress goal_tasks)
            - inProgress (calculate_goal_progress goal_tasks)
      \<and> todo (calculate_goal_progress goal_tasks)
          = int (length (filter (\<lambda>t. status t \<noteq> ustr ''Done''
                                      \<and> status t \<noteq> ustr ''In Progress'') goal_tasks))
      \<and> done_n (calculate_goal_progress goal_tasks)
          + inProgress (calculate_goal_progress goal_tasks)
          + todo (calculate_goal_progress goal_tasks)
          = total (calculate_goal_progress goal_tasks)
      \<and> percent (calculate_goal_progress goal_tasks) = percent_of ?d ?t"
    if "goal_tasks \<noteq> []"
    using progress_fields [OF that] todo_is_the_rest [OF that] by simp
  have 3: "\<bar>real_of_int (percent (calculate_goal_progress goal_tasks))
          - 100 * real ?d / real ?t\<bar> < 1"
    if "goal_tasks \<noteq> [] \<and> length goal_tasks < 2 ^ 44"
  proof -
    from that have "0 < ?t" "?t < 2 ^ 44" by simp_all
    from percent_near [OF this(1) count_le_length this(2)] that progress_fields(5)
    show ?thesis by simp
  qed
  have 4: "percent (calculate_goal_progress goal_tasks) = percent_half_even ?d ?t
      \<and> percent (calculate_goal_progress goal_tasks) = percent_half_up ?d ?t"
    if "goal_tasks \<noteq> [] \<and> length goal_tasks < 2 ^ 44 \<and> 2 * ((100 * ?d) mod ?t) \<noteq> ?t"
  proof -
    from that have t: "0 < ?t" "?t < 2 ^ 44" and n: "2 * ((100 * ?d) mod ?t) \<noteq> ?t"
      by simp_all
    from percent_exact [OF t(1) count_le_length t(2) n] that progress_fields(5)
    have e: "percent (calculate_goal_progress goal_tasks) = percent_half_even ?d ?t"
      by simp
    from half_up_eq_half_even [OF t(1) n]
    have "percent_half_up ?d ?t = percent_half_even ?d ?t"
      by (simp add: percent_half_up_def percent_half_even_def)
    with e show ?thesis by simp
  qed
  from 1 2 3 4 completed_iff [of U tasks ex g] progress_examples show ?thesis
    by blast
qed

theorem aggregate_progress_witness:
  "[task_with_status (ustr ''Done''), task_with_status (ustr ''x''),
    task_with_status (ustr ''Done'')] \<noteq> []
   \<and> length [task_with_status (ustr ''Done''), task_with_status (ustr ''x''),
             task_with_status (ustr ''Done'')] < 2 ^ 44
   \<and> 2 * ((100 * 2) mod 3) \<noteq> (3::nat)
   \<and> percent (calculate_goal_progress
        [task_with_status (ustr ''Done''), task_with_status (ustr ''x''),
         task_with_status (ustr ''Done'')]) = 67
   \<and> todo (calculate_goal_progress
        [task_with_status (ustr ''Done''), task_with_status (ustr ''x''),
         task_with_status (ustr ''Done'')]) = 1"
proof -
  let ?ts = "[task_with_status (ustr ''Done''), task_with_status (ustr ''x''),
              task_with_status (ustr ''Done'')]"
  have c: "count_status (ustr ''Done'') ?ts = 2"
    by (simp add: count_status_def task_with_status_def status_neq)
  have l: "length ?ts = 3" by simp
  have o: "length (filter (\<lambda>t. status t \<noteq> ustr ''Done''
                                \<and> status t \<noteq> ustr ''In Progress'') ?ts) = 1"
    by (simp add: task_with_status_def status_neq)
  have m: "2 * ((100 * 2) mod 3) \<noteq> (3::nat)" by simp
  have n: "?ts \<noteq> [] \<and> length ?ts < 2 ^ 44
           \<and> 2 * ((100 * count_status (ustr ''Done'') ?ts) mod length ?ts) \<noteq> length ?ts"
    unfolding c l by simp
  have ne: "?ts \<noteq> []" by simp
  from aggregate_progress [of ?ts] n
  have "percent (calculate_goal_progress ?ts)
          = percent_half_even (count_status (ustr ''Done'') ?ts) (length ?ts)"
    by blast
  then have p: "percent (calculate_goal_progress ?ts) = 67"
    unfolding c l by (simp add: percent_half_even_def round_half_even_def)
  from aggregate_progress [of ?ts] ne
  have "todo (calculate_goal_progress ?ts)
          = int (length (filter (\<lambda>t. status t \<noteq> ustr ''Done''
                                       \<and> status t \<noteq> ustr ''In Progress'') ?ts))"
    by blast
  then have t: "todo (calculate_goal_progress ?ts) = 1"
    unfolding o by simp
  from ne l m p t show ?thesis by simp
qed

end
